theory Spec2Isabelle
  imports Complex_Main "HOL-Library.Word"
begin

unbundle bit_operations_syntax

section \<open>Data model\<close>

text \<open>
  A payload is a Python \<open>bytes\<close> object: a list of 8-bit words. Python integers are
  unbounded and are modelled as \<open>int\<close>. A Python \<open>float\<close> read from the payload is kept
  as its IEEE-754 binary64 bit pattern (a 64-bit word); its numerical value is given by
  \<open>double_val\<close>.
\<close>

type_synonym byte = "8 word"
type_synonym double = "64 word"

datatype error = ValueError | StructError | IndexError | ZeroDivisionError | OverflowError

datatype fpval = Finite real | PosInf | NegInf | NaN

text \<open>The value of a binary64 bit pattern: sign bit 63, exponent bits 62..52, fraction bits 51..0.\<close>

definition fp_sign :: "double \<Rightarrow> bool" where
  "fp_sign w = bit w 63"

definition fp_exponent :: "double \<Rightarrow> nat" where
  "fp_exponent w = unat (drop_bit 52 w AND 0x7FF)"

definition fp_fraction :: "double \<Rightarrow> nat" where
  "fp_fraction w = unat (w AND 0xFFFFFFFFFFFFF)"

definition fp_magnitude :: "double \<Rightarrow> real" where
  "fp_magnitude w =
     (if fp_exponent w = 0 then real (fp_fraction w) * 2 / 2 ^ 1075
      else real (2 ^ 52 + fp_fraction w) * 2 ^ fp_exponent w / 2 ^ 1075)"

definition double_val :: "double \<Rightarrow> fpval" where
  "double_val w =
     (if fp_exponent w = 2047 then
        (if fp_fraction w = 0 then (if fp_sign w then NegInf else PosInf) else NaN)
      else Finite (if fp_sign w then - fp_magnitude w else fp_magnitude w))"

text \<open>The comparison \<open><=\<close> of Python floats: false whenever an operand is NaN.\<close>

fun fp_le :: "fpval \<Rightarrow> fpval \<Rightarrow> bool" where
  "fp_le NaN _ = False"
| "fp_le _ NaN = False"
| "fp_le NegInf _ = True"
| "fp_le _ PosInf = True"
| "fp_le (Finite x) (Finite y) = (x \<le> y)"
| "fp_le _ _ = False"

text \<open>The dictionary returned by the parser: \<open>{"vectors": [{"position": p, "duration_ms": d}]}\<close>.\<close>

record vector =
  position :: double
  duration_ms :: int

record linear_cmd =
  vectors :: "vector list"

section \<open>decode_varint\<close>

text \<open>
  The \<open>while\<close> loop of \<open>decode_varint\<close>, with its local variables \<open>result\<close>, \<open>shift\<close> and
  \<open>consumed\<close> as arguments. The loop ends at the end of the data, at a byte without the
  continuation bit, or by raising \<open>ValueError\<close> once \<open>shift\<close> exceeds 63.
\<close>

function decode_varint_loop ::
  "byte list \<Rightarrow> nat \<Rightarrow> int \<Rightarrow> nat \<Rightarrow> nat \<Rightarrow> error + (int \<times> nat)" where
  "decode_varint_loop data offset result shift consumed =
     (if offset + consumed < length data then
        (if data ! (offset + consumed) AND 0x80 = 0 then
           Inr (result OR push_bit shift (uint (data ! (offset + consumed) AND 0x7F)), consumed + 1)
         else if shift + 7 > 63 then Inl ValueError
         else decode_varint_loop data offset
                (result OR push_bit shift (uint (data ! (offset + consumed) AND 0x7F)))
                (shift + 7) (consumed + 1))
      else Inr (result, consumed))"
  by pat_completeness auto
termination
  by (relation "measure (\<lambda>(data, offset, result, shift, consumed). length data - (offset + consumed))") auto

declare decode_varint_loop.simps [simp del]

definition decode_varint :: "byte list \<Rightarrow> nat \<Rightarrow> error + (int \<times> nat)" where
  "decode_varint data offset = decode_varint_loop data offset 0 0 0"

text \<open>
  The number that a sequence of bytes denotes as a varint in the words of the
  specification: little-endian, base 128, the low 7 bits of each byte as one digit.
\<close>

fun base128_value :: "byte list \<Rightarrow> int" where
  "base128_value [] = 0"
| "base128_value (b # bs) = uint (b AND 0x7F) + 128 * base128_value bs"

section \<open>parse_linear_cmd_from_protobuf\<close>

text \<open>\<open>struct.unpack('<d', bs)\<close>: fails unless \<open>bs\<close> has exactly 8 bytes; little-endian.\<close>

fun le_bytes :: "byte list \<Rightarrow> nat" where
  "le_bytes [] = 0"
| "le_bytes (b # bs) = unat b + 256 * le_bytes bs"

definition unpack_double :: "byte list \<Rightarrow> error + double" where
  "unpack_double bs = (if length bs = 8 then Inr (of_nat (le_bytes bs)) else Inl StructError)"

text \<open>The slice \<open>data[i:i+8]\<close> for a non-negative \<open>i\<close>.\<close>

definition window :: "byte list \<Rightarrow> nat \<Rightarrow> byte list" where
  "window data i = take 8 (drop i data)"

definition double_at :: "byte list \<Rightarrow> nat \<Rightarrow> double" where
  "double_at data i = of_nat (le_bytes (window data i))"

text \<open>\<open>range(len(data) - 7, -1, -1)\<close> and \<open>range(len(data) - 2)\<close>.\<close>

definition position_range :: "byte list \<Rightarrow> nat list" where
  "position_range data = map nat (rev [0 .. int (length data) - 7])"

definition duration_range :: "byte list \<Rightarrow> nat list" where
  "duration_range data = map nat [0 .. int (length data) - 2 - 1]"

text \<open>
  The first loop: any exception of the body is swallowed by the bare \<open>except\<close>, the loop
  breaks at the first value with \<open>0.0 <= val <= 1.0\<close>.
\<close>

definition in_unit :: "double \<Rightarrow> bool" where
  "in_unit val \<longleftrightarrow> fp_le (Finite 0) (double_val val) \<and> fp_le (double_val val) (Finite 1)"

fun scan_position :: "byte list \<Rightarrow> nat list \<Rightarrow> double option" where
  "scan_position data [] = None"
| "scan_position data (i # rest) =
     (case unpack_double (window data i) of
        Inl e \<Rightarrow> scan_position data rest
      | Inr val \<Rightarrow> if in_unit val then Some val else scan_position data rest)"

definition find_position :: "byte list \<Rightarrow> double option" where
  "find_position data = scan_position data (position_range data)"

text \<open>
  The second loop. The test \<open>data[i] == 0x10\<close> is outside the \<open>try\<close>, so an index out of
  range there would escape as \<open>IndexError\<close>; the call of \<open>decode_varint\<close> is inside.
\<close>

fun scan_duration :: "byte list \<Rightarrow> nat list \<Rightarrow> error + int option" where
  "scan_duration data [] = Inr None"
| "scan_duration data (i # rest) =
     (if i < length data then
        (if data ! i = 0x10 then
           (case decode_varint data (i + 1) of
              Inl e \<Rightarrow> scan_duration data rest
            | Inr (dur, consumed) \<Rightarrow>
                if 10 \<le> dur \<and> dur \<le> 10000 then Inr (Some dur)
                else scan_duration data rest)
         else scan_duration data rest)
      else Inl IndexError)"

text \<open>What one iteration of the second loop yields at offset \<open>i\<close>, if anything.\<close>

definition duration_candidate :: "byte list \<Rightarrow> nat \<Rightarrow> int option" where
  "duration_candidate data i =
     (if data ! i = 0x10 then
        (case decode_varint data (i + 1) of
           Inl e \<Rightarrow> None
         | Inr (dur, consumed) \<Rightarrow> if 10 \<le> dur \<and> dur \<le> 10000 then Some dur else None)
      else None)"

definition find_duration :: "byte list \<Rightarrow> error + int option" where
  "find_duration data = scan_duration data (duration_range data)"

text \<open>
  The whole parser. An exception escaping a loop would escape the function; the final
  \<open>duration if duration else 500\<close> replaces a missing (or zero) duration by 500.
\<close>

definition parse_linear_cmd_from_protobuf :: "byte list \<Rightarrow> error + linear_cmd option" where
  "parse_linear_cmd_from_protobuf data =
     (let position = find_position data in
      case find_duration data of
        Inl e \<Rightarrow> Inl e
      | Inr duration \<Rightarrow>
          (case position of
             Some p \<Rightarrow>
               Inr (Some \<lparr>vectors = [\<lparr>position = p,
                      vector.duration_ms = (case duration of
                                       None \<Rightarrow> 500
                                     | Some d \<Rightarrow> if d \<noteq> 0 then d else 500)\<rparr>]\<rparr>)
           | None \<Rightarrow> Inr None))"

section \<open>The movement model of HandySimulator\<close>

text \<open>
  The position arithmetic of the simulator is modelled over the real numbers: Python
  floats are idealised as exact reals, so rounding is not part of the model. The
  monotonic clock \<open>get_time_ms()\<close> is an input: each operation takes the clock reading
  \<open>now\<close> it would observe. Python's float division raises \<open>ZeroDivisionError\<close> on a
  zero divisor. Durations are unbounded Python integers; an arithmetic operation between
  a float and an integer first converts the integer to a float, which raises
  \<open>OverflowError\<close> when the integer rounds beyond the largest binary64 value, that is
  from \<open>2 ^ 1024 - 2 ^ 970\<close> on. A comparison between a float and an integer is exact
  and converts nothing. The calls of \<open>self.log\<close> are output only and are left out.
\<close>

definition py_div :: "real \<Rightarrow> real \<Rightarrow> error + real" where
  "py_div a b = (if b = 0 then Inl ZeroDivisionError else Inr (a / b))"

definition float_of_int :: "int \<Rightarrow> error + real" where
  "float_of_int n =
     (if \<bar>n\<bar> \<ge> 2 ^ 1024 - 2 ^ 970 then Inl OverflowError else Inr (real_of_int n))"

text \<open>The integers that convert to a float.\<close>

definition float_range :: "int \<Rightarrow> bool" where
  "float_range n \<longleftrightarrow> \<bar>n\<bar> < 2 ^ 1024 - 2 ^ 970"

record Movement =
  start_position :: real
  target_position :: real
  duration_ms :: int
  start_time_ms :: real
  is_active :: bool

record HandySimulator =
  current_position :: real
  target_position :: real
  current_movement :: "Movement option"
  speed_mms :: real

definition init :: HandySimulator where
  "init = \<lparr>current_position = 0.5, target_position = 0.5,
            current_movement = None, speed_mms = 0.0\<rparr>"

definition start_movement :: "real \<Rightarrow> real \<Rightarrow> int \<Rightarrow> HandySimulator \<Rightarrow> error + HandySimulator" where
  "start_movement now pos dur s =
     (let position = max 0.0 (min 1.0 pos);
          duration = max 10 dur;
          distance = \<bar>position - current_position s\<bar>
      in case (if distance > 0.001
               then (case float_of_int duration of
                       Inl e \<Rightarrow> Inl e
                     | Inr d \<Rightarrow> py_div (distance * 125) (d / 1000.0))
               else Inr 0) of
           Inl e \<Rightarrow> Inl e
         | Inr speed \<Rightarrow>
             Inr (s\<lparr>speed_mms := speed,
                    current_movement := Some \<lparr>start_position = current_position s,
                                              Movement.target_position = position,
                                              Movement.duration_ms = duration,
                                              start_time_ms = now,
                                              is_active = True\<rparr>,
                    HandySimulator.target_position := position\<rparr>))"

definition update_position :: "real \<Rightarrow> HandySimulator \<Rightarrow> error + HandySimulator" where
  "update_position now s =
     (case current_movement s of
        None \<Rightarrow> Inr s
      | Some movement \<Rightarrow>
          if is_active movement then
            (let elapsed_ms = now - start_time_ms movement in
             if elapsed_ms \<ge> real_of_int (Movement.duration_ms movement) then
               Inr (s\<lparr>current_position := Movement.target_position movement,
                      speed_mms := 0,
                      current_movement := None\<rparr>)
             else
               (case float_of_int (Movement.duration_ms movement) of
                  Inl e \<Rightarrow> Inl e
                | Inr d \<Rightarrow>
                    (case py_div elapsed_ms d of
                       Inl e \<Rightarrow> Inl e
                     | Inr progress \<Rightarrow>
                         Inr (s\<lparr>current_position :=
                                  start_position movement +
                                  (Movement.target_position movement - start_position movement) *
                                  progress\<rparr>))))
          else Inr s)"

text \<open>
  A run of the simulator: a sequence of calls, each with the clock reading it observes.
  Both operations raise, if at all, before their first assignment to \<open>self\<close>, so an
  exception leaves the simulator as it was; the loops that call the operations
  (\<open>movement_loop\<close>, \<open>message_loop\<close>) catch it, log it and go on. \<open>run\<close> gives the state
  after the last call.
\<close>

datatype op = StartMovement real int | Tick

fun apply_op :: "HandySimulator \<Rightarrow> real \<times> op \<Rightarrow> error + HandySimulator" where
  "apply_op s (now, StartMovement pos dur) = start_movement now pos dur s"
| "apply_op s (now, Tick) = update_position now s"

definition step :: "HandySimulator \<Rightarrow> real \<times> op \<Rightarrow> HandySimulator" where
  "step s c = (case apply_op s c of Inl e \<Rightarrow> s | Inr s' \<Rightarrow> s')"

fun run :: "HandySimulator \<Rightarrow> (real \<times> op) list \<Rightarrow> HandySimulator" where
  "run s [] = s"
| "run s (c # cs) = run (step s c) cs"

text \<open>
  The invariant of a run, relative to the last clock reading \<open>t\<close>: positions lie in
  [0, 1]; an idle simulator rests at its target; a movement in progress starts and ends
  in [0, 1], ends at the simulator's target, lasts at least 10 ms and did not start after
  \<open>t\<close>.
\<close>

definition movement_inv :: "real \<Rightarrow> HandySimulator \<Rightarrow> bool" where
  "movement_inv t s \<longleftrightarrow>
     0 \<le> current_position s \<and> current_position s \<le> 1 \<and>
     0 \<le> HandySimulator.target_position s \<and> HandySimulator.target_position s \<le> 1 \<and>
     (case current_movement s of
        None \<Rightarrow> current_position s = HandySimulator.target_position s
      | Some m \<Rightarrow>
          0 \<le> start_position m \<and> start_position m \<le> 1 \<and>
          Movement.target_position m = HandySimulator.target_position s \<and>
          10 \<le> Movement.duration_ms m \<and> start_time_ms m \<le> t)"

text \<open>A sequence of ticks at the given clock readings.\<close>

definition ticks :: "real list \<Rightarrow> (real \<times> op) list" where
  "ticks ts = map (\<lambda>t. (t, Tick)) ts"

section \<open>The two scanning loops\<close>

text \<open>The index ranges of the two loops, as lists of naturals.\<close>

lemma map_nat_upto: "map nat [0 .. int n - 1] = [0..<n]"
proof (induction n)
  case 0
  show ?case by simp
next
  case (Suc n)
  have "[0 .. int (Suc n) - 1] = [0 .. int n - 1] @ [int n]"
    using upto_rec2 [of 0 "int n"] by simp
  with Suc show ?case by simp
qed

lemma position_range_eq: "position_range data = rev [0..<length data - 6]"
proof (cases "6 \<le> length data")
  case True
  then have eq: "int (length data) - 7 = int (length data - 6) - 1" by simp
  have "position_range data = map nat (rev [0 .. int (length data - 6) - 1])"
    by (simp only: position_range_def eq)
  also have "\<dots> = rev (map nat [0 .. int (length data - 6) - 1])"
    by (simp only: rev_map)
  also have "\<dots> = rev [0..<length data - 6]"
    by (simp only: map_nat_upto)
  finally show ?thesis .
next
  case False
  then have "int (length data) - 7 < 0" and "length data - 6 = 0" by simp_all
  then show ?thesis by (simp add: position_range_def)
qed

lemma duration_range_eq: "duration_range data = [0..<length data - 2]"
proof (cases "2 \<le> length data")
  case True
  then have eq: "int (length data) - 2 - 1 = int (length data - 2) - 1" by simp
  have "duration_range data = map nat [0 .. int (length data - 2) - 1]"
    by (simp only: duration_range_def eq)
  also have "\<dots> = [0..<length data - 2]"
    by (simp only: map_nat_upto)
  finally show ?thesis .
next
  case False
  then have "int (length data) - 2 - 1 < 0" and "length data - 2 = 0" by simp_all
  then show ?thesis by (simp add: duration_range_def)
qed

lemma upt_split: "i < n \<Longrightarrow> [0..<n] = [0..<i] @ i # [Suc i..<n]"
proof -
  assume lt: "i < n"
  then have "[0..<n] = [0..<i] @ [i..<n]"
    using upt_add_eq_append [of 0 i "n - i"] by simp
  also have "[i..<n] = i # [Suc i..<n]"
    using lt by (rule upt_conv_Cons)
  finally show ?thesis .
qed

lemma length_window: "length (window data i) = 8 \<longleftrightarrow> i + 8 \<le> length data"
  unfolding window_def by auto

lemma scan_position_step:
  "scan_position data (i # rest) =
     (if i + 8 \<le> length data \<and> in_unit (double_at data i) then Some (double_at data i)
      else scan_position data rest)"
  by (simp add: unpack_double_def length_window double_at_def)

lemma scan_position_skip:
  "\<forall>j\<in>set pre. \<not> (j + 8 \<le> length data \<and> in_unit (double_at data j)) \<Longrightarrow>
   scan_position data (pre @ rest) = scan_position data rest"
proof (induction pre)
  case Nil
  show ?case by simp
next
  case (Cons j pre)
  then show ?case by (auto simp add: scan_position_step simp del: scan_position.simps)
qed

lemma scan_position_hit:
  "i + 8 \<le> length data \<Longrightarrow> in_unit (double_at data i) \<Longrightarrow>
   scan_position data (i # rest) = Some (double_at data i)"
  by (simp add: scan_position_step del: scan_position.simps)

lemma find_position_Some:
  assumes "i + 8 \<le> length data" and "in_unit (double_at data i)"
    and "\<forall>j. i < j \<and> j + 8 \<le> length data \<longrightarrow> \<not> in_unit (double_at data j)"
  shows "find_position data = Some (double_at data i)"
proof -
  let ?n = "length data - 6"
  have lt: "i < ?n" using assms(1) by simp
  have "rev [0..<?n] = rev ([0..<i] @ i # [Suc i..<?n])"
    using upt_split [OF lt] by (rule arg_cong)
  then have split: "position_range data = rev [Suc i..<?n] @ i # rev [0..<i]"
    by (simp add: position_range_eq)
  have skip: "\<forall>j\<in>set (rev [Suc i..<?n]). \<not> (j + 8 \<le> length data \<and> in_unit (double_at data j))"
    using assms(3) by auto
  have "find_position data = scan_position data (rev [Suc i..<?n] @ i # rev [0..<i])"
    by (simp only: find_position_def split)
  also have "\<dots> = scan_position data (i # rev [0..<i])"
    using skip by (rule scan_position_skip)
  also have "\<dots> = Some (double_at data i)"
    using assms(1,2) by (rule scan_position_hit)
  finally show ?thesis .
qed

lemma find_position_None:
  assumes "\<forall>i. i + 8 \<le> length data \<longrightarrow> \<not> in_unit (double_at data i)"
  shows "find_position data = None"
proof -
  have "\<forall>j\<in>set (position_range data). \<not> (j + 8 \<le> length data \<and> in_unit (double_at data j))"
    using assms by simp
  then have "scan_position data (position_range data @ []) = scan_position data []"
    by (rule scan_position_skip)
  then show ?thesis unfolding find_position_def by simp
qed

lemma scan_position_SomeD:
  "scan_position data is = Some p \<Longrightarrow>
   \<exists>i. i + 8 \<le> length data \<and> in_unit (double_at data i) \<and> p = double_at data i"
proof (induction "is")
  case Nil
  then show ?case by simp
next
  case (Cons j rest)
  show ?case
  proof (cases "j + 8 \<le> length data \<and> in_unit (double_at data j)")
    case True
    with Cons.prems have "p = double_at data j"
      by (simp add: scan_position_step del: scan_position.simps)
    with True show ?thesis by blast
  next
    case False
    with Cons.prems have "scan_position data rest = Some p"
      by (simp add: scan_position_step del: scan_position.simps)
    then show ?thesis by (rule Cons.IH)
  qed
qed

lemma find_position_SomeD:
  "find_position data = Some p \<Longrightarrow>
   \<exists>i. i + 8 \<le> length data \<and> in_unit (double_at data i) \<and> p = double_at data i"
  unfolding find_position_def by (rule scan_position_SomeD)

lemma scan_duration_step:
  "i < length data \<Longrightarrow>
   scan_duration data (i # rest) =
     (case duration_candidate data i of Some d \<Rightarrow> Inr (Some d) | None \<Rightarrow> scan_duration data rest)"
  by (simp add: duration_candidate_def split: sum.split prod.split)

lemma scan_duration_skip:
  "\<forall>j\<in>set pre. j < length data \<and> duration_candidate data j = None \<Longrightarrow>
   scan_duration data (pre @ rest) = scan_duration data rest"
proof (induction pre)
  case Nil
  show ?case by simp
next
  case (Cons j pre)
  then show ?case by (auto simp add: scan_duration_step simp del: scan_duration.simps)
qed

lemma scan_duration_hit:
  "i < length data \<Longrightarrow> duration_candidate data i = Some d \<Longrightarrow>
   scan_duration data (i # rest) = Inr (Some d)"
  by (simp add: scan_duration_step del: scan_duration.simps)

lemma find_duration_Some:
  assumes "i + 2 < length data" and "duration_candidate data i = Some d"
    and "\<forall>j<i. duration_candidate data j = None"
  shows "find_duration data = Inr (Some d)"
proof -
  let ?n = "length data - 2"
  have lt: "i < ?n" using assms(1) by simp
  have inb: "i < length data" using assms(1) by simp
  have split: "duration_range data = [0..<i] @ i # [Suc i..<?n]"
    using upt_split [OF lt] by (simp only: duration_range_eq)
  have skip: "\<forall>j\<in>set [0..<i]. j < length data \<and> duration_candidate data j = None"
    using assms(1,3) by auto
  have "find_duration data = scan_duration data ([0..<i] @ i # [Suc i..<?n])"
    by (simp only: find_duration_def split)
  also have "\<dots> = scan_duration data (i # [Suc i..<?n])"
    using skip by (rule scan_duration_skip)
  also have "\<dots> = Inr (Some d)"
    using inb assms(2) by (rule scan_duration_hit)
  finally show ?thesis .
qed

lemma find_duration_None:
  assumes "\<forall>j. j + 2 < length data \<longrightarrow> duration_candidate data j = None"
  shows "find_duration data = Inr None"
proof -
  have "\<forall>j\<in>set (duration_range data). j < length data \<and> duration_candidate data j = None"
    using assms unfolding duration_range_eq by auto
  then have "scan_duration data (duration_range data @ []) = scan_duration data []"
    by (rule scan_duration_skip)
  then show ?thesis unfolding find_duration_def by simp
qed

lemma scan_duration_total:
  "\<forall>j\<in>set is. j < length data \<Longrightarrow> \<exists>r. scan_duration data is = Inr r"
proof (induction "is")
  case Nil
  show ?case by simp
next
  case (Cons j rest)
  then show ?case
    by (cases "duration_candidate data j") (simp_all add: scan_duration_step del: scan_duration.simps)
qed

lemma find_duration_total: "\<exists>r. find_duration data = Inr r"
  unfolding find_duration_def
  by (rule scan_duration_total) (auto simp add: duration_range_eq)

section \<open>Properties of the parser\<close>

lemmas fp_defs = in_unit_def double_val_def fp_exponent_def fp_fraction_def fp_sign_def
  fp_magnitude_def

lemma parse_no_position:
  "find_position data = None \<Longrightarrow> parse_linear_cmd_from_protobuf data = Inr None"
  using find_duration_total [of data]
  by (auto simp add: parse_linear_cmd_from_protobuf_def Let_def)

lemma parse_position:
  "find_position data = Some p \<Longrightarrow> find_duration data = Inr dur \<Longrightarrow>
   parse_linear_cmd_from_protobuf data =
     Inr (Some \<lparr>vectors = [\<lparr>position = p,
       vector.duration_ms = (case dur of None \<Rightarrow> 500 | Some d \<Rightarrow> if d \<noteq> 0 then d else 500)\<rparr>]\<rparr>)"
  by (simp add: parse_linear_cmd_from_protobuf_def Let_def)

lemma no_sentinel_no_candidate:
  "j < length data \<Longrightarrow> data ! j \<noteq> 0x10 \<Longrightarrow> duration_candidate data j = None"
  by (simp add: duration_candidate_def)

lemma find_duration_no_sentinel:
  assumes "0x10 \<notin> set data"
  shows "find_duration data = Inr None"
proof (rule find_duration_None, intro allI impI)
  fix j assume "j + 2 < length data"
  then have j: "j < length data" by simp
  then have "data ! j \<in> set data" by (rule nth_mem)
  with assms have "data ! j \<noteq> 0x10" by metis
  with j show "duration_candidate data j = None" by (rule no_sentinel_no_candidate)
qed

subsection \<open>Position recovery\<close>

text \<open>
  Claim C1 (as amended). Position recovery tries every byte offset, from the highest one
  that leaves a full 8-byte window down to offset 0 (the offsets are not restricted to
  multiples of 8), reads each window as a little-endian binary64 value and takes the
  window of highest offset whose value lies in [0.0, 1.0]. In particular, when the last 8
  bytes of the buffer hold such a value and the buffer contains no byte 0x10, the parser
  returns that position with duration 500.
\<close>

theorem position_is_last_window_in_unit:
  "(i + 8 \<le> length data \<and> in_unit (double_at data i) \<and>
    (\<forall>j. i < j \<and> j + 8 \<le> length data \<longrightarrow> \<not> in_unit (double_at data j)) \<longrightarrow>
      (\<exists>d. parse_linear_cmd_from_protobuf data =
             Inr (Some \<lparr>vectors = [\<lparr>position = double_at data i, vector.duration_ms = d\<rparr>]\<rparr>))) \<and>
   (8 \<le> length data \<and> in_unit (double_at data (length data - 8)) \<and> 0x10 \<notin> set data \<longrightarrow>
      parse_linear_cmd_from_protobuf data =
        Inr (Some \<lparr>vectors = [\<lparr>position = double_at data (length data - 8),
                                vector.duration_ms = 500\<rparr>]\<rparr>))"
proof (intro conjI impI)
  assume h: "i + 8 \<le> length data \<and> in_unit (double_at data i) \<and>
    (\<forall>j. i < j \<and> j + 8 \<le> length data \<longrightarrow> \<not> in_unit (double_at data j))"
  then have pos: "find_position data = Some (double_at data i)"
    by (intro find_position_Some) simp_all
  obtain dur where "find_duration data = Inr dur"
    using find_duration_total [of data] by blast
  with pos show "\<exists>d. parse_linear_cmd_from_protobuf data =
             Inr (Some \<lparr>vectors = [\<lparr>position = double_at data i, vector.duration_ms = d\<rparr>]\<rparr>)"
    using parse_position by blast
next
  assume h: "8 \<le> length data \<and> in_unit (double_at data (length data - 8)) \<and> 0x10 \<notin> set data"
  have "find_position data = Some (double_at data (length data - 8))"
  proof (rule find_position_Some)
    show "length data - 8 + 8 \<le> length data" using h by simp
    show "in_unit (double_at data (length data - 8))" using h by simp
    show "\<forall>j. length data - 8 < j \<and> j + 8 \<le> length data \<longrightarrow> \<not> in_unit (double_at data j)"
      by auto
  qed
  moreover have "find_duration data = Inr None"
    using h by (intro find_duration_no_sentinel) simp
  ultimately show "parse_linear_cmd_from_protobuf data =
        Inr (Some \<lparr>vectors = [\<lparr>position = double_at data (length data - 8),
                                vector.duration_ms = 500\<rparr>]\<rparr>)"
    using parse_position [of data _ None] by simp
qed

text \<open>
  The theorem at two concrete payloads: a 9-byte buffer whose window at offset 1 is the
  last one in range, and a 9-byte buffer ending in the encoding of 1.0.
\<close>

theorem position_is_last_window_in_unit_witness:
  "(\<exists>d. parse_linear_cmd_from_protobuf [0, 0, 0, 0, 0, 0, 0xF0, 0x3F, 0] =
      Inr (Some \<lparr>vectors = [\<lparr>position = 0x3FF00000000000, vector.duration_ms = d\<rparr>]\<rparr>)) \<and>
   parse_linear_cmd_from_protobuf [0, 0, 0, 0, 0, 0, 0, 0xF0, 0x3F] =
      Inr (Some \<lparr>vectors = [\<lparr>position = 0x3FF0000000000000, vector.duration_ms = 500\<rparr>]\<rparr>)"
proof -
  have a: "in_unit (double_at [0, 0, 0, 0, 0, 0, 0xF0, 0x3F, 0] 1)"
    by (simp add: double_at_def window_def fp_defs)
  have b: "in_unit (double_at [0, 0, 0, 0, 0, 0, 0, 0xF0, 0x3F] 1)"
    by (simp add: double_at_def window_def fp_defs)
  have c: "double_at [0, 0, 0, 0, 0, 0, 0xF0, 0x3F, 0] 1 = 0x3FF00000000000"
    by (simp add: double_at_def window_def)
  have d: "double_at [0, 0, 0, 0, 0, 0, 0, 0xF0, 0x3F] 1 = 0x3FF0000000000000"
    by (simp add: double_at_def window_def)
  show ?thesis
    using position_is_last_window_in_unit [of 1 "[0, 0, 0, 0, 0, 0, 0xF0, 0x3F, 0]"]
      position_is_last_window_in_unit [of 1 "[0, 0, 0, 0, 0, 0, 0, 0xF0, 0x3F]"] a b c d
    by simp
qed

text \<open>
  The claim as first stated fails: in the 9-byte buffer below the only 8-byte-aligned
  window (offset 0) holds 1.0 and there is no byte 0x10, yet the parser returns the value
  of the unaligned window at offset 1.
\<close>

theorem aligned_window_counterexample:
  "in_unit (double_at [0, 0, 0, 0, 0, 0, 0xF0, 0x3F, 0] 0) \<and>
   0x10 \<notin> set [0, 0, 0, 0, 0, 0, 0xF0, 0x3F, 0 :: byte] \<and>
   double_at [0, 0, 0, 0, 0, 0, 0xF0, 0x3F, 0] 0 = 0x3FF0000000000000 \<and>
   parse_linear_cmd_from_protobuf [0, 0, 0, 0, 0, 0, 0xF0, 0x3F, 0] =
     Inr (Some \<lparr>vectors = [\<lparr>position = 0x3FF00000000000, vector.duration_ms = 500\<rparr>]\<rparr>)"
proof -
  have a: "in_unit (double_at [0, 0, 0, 0, 0, 0, 0xF0, 0x3F, 0] 1)"
    by (simp add: double_at_def window_def fp_defs)
  have c: "double_at [0, 0, 0, 0, 0, 0, 0xF0, 0x3F, 0] 1 = 0x3FF00000000000"
    by (simp add: double_at_def window_def)
  have "find_position [0, 0, 0, 0, 0, 0, 0xF0, 0x3F, 0] = Some (double_at [0, 0, 0, 0, 0, 0, 0xF0, 0x3F, 0] 1)"
    by (rule find_position_Some) (use a in auto)
  moreover have "find_duration [0, 0, 0, 0, 0, 0, 0xF0, 0x3F, 0] = Inr None"
    by (rule find_duration_no_sentinel) simp
  ultimately have "parse_linear_cmd_from_protobuf [0, 0, 0, 0, 0, 0, 0xF0, 0x3F, 0] =
     Inr (Some \<lparr>vectors = [\<lparr>position = 0x3FF00000000000, vector.duration_ms = 500\<rparr>]\<rparr>)"
    using parse_position [of _ _ None] c by simp
  moreover have "in_unit (double_at [0, 0, 0, 0, 0, 0, 0xF0, 0x3F, 0] 0)"
    by (simp add: double_at_def window_def fp_defs)
  moreover have "double_at [0, 0, 0, 0, 0, 0, 0xF0, 0x3F, 0] 0 = 0x3FF0000000000000"
    by (simp add: double_at_def window_def)
  ultimately show ?thesis by simp
qed

lemma nat_less_4: "i < (4::nat) \<Longrightarrow> i = 0 \<or> i = 1 \<or> i = 2 \<or> i = 3"
  by arith

subsection \<open>Totality\<close>

text \<open>
  Claim C7. The parser never raises: for every payload it returns either a command or
  \<open>None\<close>. Every failure inside the two loops (a short window rejected by
  \<open>struct.unpack\<close>, an over-long varint, a value out of range) is absorbed there, and the
  index \<open>data[i]\<close> of the second loop is always in range.
\<close>

theorem parse_total: "\<exists>r. parse_linear_cmd_from_protobuf data = Inr r"
proof -
  obtain dur where "find_duration data = Inr dur"
    using find_duration_total [of data] by blast
  then show ?thesis
    by (cases "find_position data") (simp_all add: parse_linear_cmd_from_protobuf_def Let_def)
qed

subsection \<open>No position, no command\<close>

text \<open>
  Claim C8. A buffer shorter than 8 bytes yields nothing; more generally, a buffer in
  which no 8-byte window holds a double in [0.0, 1.0] yields nothing, whatever the
  duration scan would find.
\<close>

theorem no_window_no_command:
  "(length data < 8 \<longrightarrow> parse_linear_cmd_from_protobuf data = Inr None) \<and>
   ((\<forall>i. i + 8 \<le> length data \<longrightarrow> \<not> in_unit (double_at data i)) \<longrightarrow>
      parse_linear_cmd_from_protobuf data = Inr None)"
proof (intro conjI impI)
  assume "length data < 8"
  then have "\<forall>i. i + 8 \<le> length data \<longrightarrow> \<not> in_unit (double_at data i)" by simp
  then have "find_position data = None" by (rule find_position_None)
  then show "parse_linear_cmd_from_protobuf data = Inr None" by (rule parse_no_position)
next
  assume "\<forall>i. i + 8 \<le> length data \<longrightarrow> \<not> in_unit (double_at data i)"
  then have "find_position data = None" by (rule find_position_None)
  then show "parse_linear_cmd_from_protobuf data = Inr None" by (rule parse_no_position)
qed

text \<open>
  The theorem at a 3-byte payload, and at an 11-byte payload that carries the varint 250
  after the byte 0x10 but whose four windows are all NaN.
\<close>

theorem no_window_no_command_witness:
  "parse_linear_cmd_from_protobuf [0x10, 0x32, 0] = Inr None \<and>
   find_duration [0x10, 0xFA, 0x01, 0xFF, 0xFF, 0xFF, 0xFF, 0xFF, 0xFF, 0xFF, 0xFF] = Inr (Some 250) \<and>
   parse_linear_cmd_from_protobuf [0x10, 0xFA, 0x01, 0xFF, 0xFF, 0xFF, 0xFF, 0xFF, 0xFF, 0xFF, 0xFF]
     = Inr None"
proof -
  let ?D = "[0x10, 0xFA, 0x01, 0xFF, 0xFF, 0xFF, 0xFF, 0xFF, 0xFF, 0xFF, 0xFF] :: byte list"
  have w: "\<not> in_unit (double_at ?D 0)" "\<not> in_unit (double_at ?D 1)"
    "\<not> in_unit (double_at ?D 2)" "\<not> in_unit (double_at ?D 3)"
    by (simp_all add: double_at_def window_def fp_defs)
  have "\<forall>i. i + 8 \<le> length ?D \<longrightarrow> \<not> in_unit (double_at ?D i)"
  proof (intro allI impI)
    fix i assume "i + 8 \<le> length ?D"
    then have "i < 4" by simp
    then have "i = 0 \<or> i = 1 \<or> i = 2 \<or> i = 3" by (rule nat_less_4)
    with w show "\<not> in_unit (double_at ?D i)" by blast
  qed
  then have "parse_linear_cmd_from_protobuf ?D = Inr None"
    using no_window_no_command [of ?D] by blast
  moreover have "find_duration ?D = Inr (Some 250)"
    by code_simp
  moreover have "parse_linear_cmd_from_protobuf [0x10, 0x32, 0] = Inr None"
    using no_window_no_command [of "[0x10, 0x32, 0]"] by simp
  ultimately show ?thesis by blast
qed

subsection \<open>Which fields a command needs\<close>

text \<open>
  Claim C9 (as amended). Only the position is mandatory. A payload from which a duration
  but no position can be recovered yields no command; a payload from which a position but
  no duration can be recovered yields a command with that position and the default
  duration 500.
\<close>

theorem field_combination:
  "((\<forall>i. i + 8 \<le> length data \<longrightarrow> \<not> in_unit (double_at data i)) \<and>
    k + 2 < length data \<and> duration_candidate data k = Some d \<longrightarrow>
      parse_linear_cmd_from_protobuf data = Inr None) \<and>
   (i + 8 \<le> length data \<and> in_unit (double_at data i) \<and>
    (\<forall>j. i < j \<and> j + 8 \<le> length data \<longrightarrow> \<not> in_unit (double_at data j)) \<and>
    (\<forall>j. j + 2 < length data \<longrightarrow> duration_candidate data j = None) \<longrightarrow>
      parse_linear_cmd_from_protobuf data =
        Inr (Some \<lparr>vectors = [\<lparr>position = double_at data i, vector.duration_ms = 500\<rparr>]\<rparr>))"
proof (intro conjI impI)
  assume "(\<forall>i. i + 8 \<le> length data \<longrightarrow> \<not> in_unit (double_at data i)) \<and>
    k + 2 < length data \<and> duration_candidate data k = Some d"
  then have "find_position data = None" by (intro find_position_None) simp
  then show "parse_linear_cmd_from_protobuf data = Inr None" by (rule parse_no_position)
next
  assume h: "i + 8 \<le> length data \<and> in_unit (double_at data i) \<and>
    (\<forall>j. i < j \<and> j + 8 \<le> length data \<longrightarrow> \<not> in_unit (double_at data j)) \<and>
    (\<forall>j. j + 2 < length data \<longrightarrow> duration_candidate data j = None)"
  then have "find_position data = Some (double_at data i)"
    by (intro find_position_Some) simp_all
  moreover have "find_duration data = Inr None"
    using h by (intro find_duration_None) simp
  ultimately show "parse_linear_cmd_from_protobuf data =
        Inr (Some \<lparr>vectors = [\<lparr>position = double_at data i, vector.duration_ms = 500\<rparr>]\<rparr>)"
    using parse_position [of data _ None] by simp
qed

text \<open>The theorem at a payload with a duration only, and at a payload with a position only.\<close>

theorem field_combination_witness:
  "parse_linear_cmd_from_protobuf [0x10, 0xFA, 0x01, 0xFF, 0xFF, 0xFF, 0xFF, 0xFF, 0xFF, 0xFF, 0xFF]
     = Inr None \<and>
   parse_linear_cmd_from_protobuf [0, 0, 0, 0, 0, 0, 0xE8, 0x3F] =
     Inr (Some \<lparr>vectors = [\<lparr>position = 0x3FE8000000000000, vector.duration_ms = 500\<rparr>]\<rparr>)"
proof -
  let ?D = "[0x10, 0xFA, 0x01, 0xFF, 0xFF, 0xFF, 0xFF, 0xFF, 0xFF, 0xFF, 0xFF] :: byte list"
  let ?E = "[0, 0, 0, 0, 0, 0, 0xE8, 0x3F] :: byte list"
  have w: "\<not> in_unit (double_at ?D 0)" "\<not> in_unit (double_at ?D 1)"
    "\<not> in_unit (double_at ?D 2)" "\<not> in_unit (double_at ?D 3)"
    by (simp_all add: double_at_def window_def fp_defs)
  have nowin: "\<forall>i. i + 8 \<le> length ?D \<longrightarrow> \<not> in_unit (double_at ?D i)"
  proof (intro allI impI)
    fix i assume "i + 8 \<le> length ?D"
    then have "i < 4" by simp
    then have "i = 0 \<or> i = 1 \<or> i = 2 \<or> i = 3" by (rule nat_less_4)
    with w show "\<not> in_unit (double_at ?D i)" by blast
  qed
  have cand: "duration_candidate ?D 0 = Some 250"
    by code_simp
  have first: "parse_linear_cmd_from_protobuf ?D = Inr None"
    using field_combination [where data = ?D and k = 0 and d = 250, THEN conjunct1] nowin cand by simp
  have e1: "in_unit (double_at ?E 0)"
    by (simp add: double_at_def window_def fp_defs)
  have e2: "double_at ?E 0 = 0x3FE8000000000000"
    by (simp add: double_at_def window_def)
  have e3: "\<forall>j. j + 2 < length ?E \<longrightarrow> duration_candidate ?E j = None"
  proof (intro allI impI)
    fix j assume "j + 2 < length ?E"
    then have j: "j < length ?E" by simp
    then have "?E ! j \<in> set ?E" by (rule nth_mem)
    then have "?E ! j \<noteq> 0x10" by auto
    with j show "duration_candidate ?E j = None" by (rule no_sentinel_no_candidate)
  qed
  have second: "parse_linear_cmd_from_protobuf ?E =
     Inr (Some \<lparr>vectors = [\<lparr>position = 0x3FE8000000000000, vector.duration_ms = 500\<rparr>]\<rparr>)"
    using field_combination [where data = ?E and i = 0, THEN conjunct2] e1 e2 e3 by simp
  from first second show ?thesis by blast
qed

text \<open>
  The claim as first stated fails: the 8 bytes encoding 0.75 contain no duration, and the
  parser still returns a command.
\<close>

theorem position_only_counterexample:
  "find_duration [0, 0, 0, 0, 0, 0, 0xE8, 0x3F] = Inr None \<and>
   find_position [0, 0, 0, 0, 0, 0, 0xE8, 0x3F] = Some 0x3FE8000000000000 \<and>
   parse_linear_cmd_from_protobuf [0, 0, 0, 0, 0, 0, 0xE8, 0x3F] =
     Inr (Some \<lparr>vectors = [\<lparr>position = 0x3FE8000000000000, vector.duration_ms = 500\<rparr>]\<rparr>)"
proof -
  let ?E = "[0, 0, 0, 0, 0, 0, 0xE8, 0x3F] :: byte list"
  have e1: "in_unit (double_at ?E 0)"
    by (simp add: double_at_def window_def fp_defs)
  have e2: "double_at ?E 0 = 0x3FE8000000000000"
    by (simp add: double_at_def window_def)
  have d: "find_duration ?E = Inr None"
    by (rule find_duration_no_sentinel) simp
  have "find_position ?E = Some (double_at ?E 0)"
    by (rule find_position_Some) (use e1 in auto)
  then have p: "find_position ?E = Some 0x3FE8000000000000"
    using e2 by simp
  from parse_position [OF p d] d p show ?thesis by simp
qed

subsection \<open>The varint decoder\<close>

text \<open>
  The bits that \<open>decode_varint\<close> combines with \<open>|=\<close> never overlap, so the result is the
  base-128 number of the bytes it consumed; at most 10 bytes are consumed, and 10 bytes
  that all carry the continuation bit raise \<open>ValueError\<close>.
\<close>

lemma or_push_bit_add:
  fixes r x :: int
  assumes "0 \<le> r" and "r < 2 ^ s"
  shows "r OR push_bit s x = r + x * 2 ^ s"
proof -
  have r: "take_bit s r = r" using assms by (rule take_bit_int_eq_self)
  have "\<not> bit r n \<or> \<not> bit (push_bit s x) n" for n
  proof -
    have "bit r n \<Longrightarrow> n < s" using r by (metis bit_take_bit_iff)
    moreover have "bit (push_bit s x) n \<Longrightarrow> s \<le> n" by (simp add: bit_push_bit_iff_int)
    ultimately show ?thesis by fastforce
  qed
  then have "r + push_bit s x = r OR push_bit s x" by (rule disjunctive_add)
  then show ?thesis by (simp add: push_bit_eq_mult)
qed

lemma low7_bound: "uint ((b :: byte) AND 0x7F) < 128"
proof -
  have "b AND 0x7F \<le> 0x7F" by (rule word_and_le1)
  then show ?thesis by (simp add: word_le_def)
qed

lemma low7_nonneg: "0 \<le> uint ((b :: byte) AND 0x7F)"
  by simp

lemma drop_nth_Cons: "i < length xs \<Longrightarrow> drop i xs = xs ! i # drop (Suc i) xs"
  by (simp add: Cons_nth_drop_Suc)

lemma decode_varint_loop_value:
  "decode_varint_loop data off result shift consumed = Inr (v, n) \<Longrightarrow>
   shift = 7 * consumed \<Longrightarrow> consumed \<le> 9 \<Longrightarrow> 0 \<le> result \<Longrightarrow> result < 2 ^ shift \<Longrightarrow>
   consumed \<le> n \<and> n \<le> 10 \<and>
   v = result + 2 ^ shift * base128_value (take (n - consumed) (drop (off + consumed) data))"
proof (induction data off result shift consumed rule: decode_varint_loop.induct)
  case (1 data off result shift consumed)
  let ?i = "off + consumed"
  let ?x = "uint (data ! ?i AND 0x7F)"
  let ?r = "result OR push_bit shift ?x"
  show ?case
  proof (cases "?i < length data")
    case False
    with "1.prems"(1) have "v = result" and "n = consumed"
      by (simp_all add: decode_varint_loop.simps [of data off result shift consumed])
    with "1.prems"(3) show ?thesis by simp
  next
    case inb: True
    have r: "?r = result + ?x * 2 ^ shift"
      using "1.prems"(4,5) by (rule or_push_bit_add)
    have d: "drop ?i data = data ! ?i # drop (Suc ?i) data"
      using inb by (rule drop_nth_Cons)
    show ?thesis
    proof (cases "data ! ?i AND 0x80 = 0")
      case True
      with inb "1.prems"(1) have "v = ?r" and n: "n = consumed + 1"
        by (simp_all add: decode_varint_loop.simps [of data off result shift consumed])
      then have "v = result + ?x * 2 ^ shift" using r by simp
      moreover have "take (n - consumed) (drop ?i data) = [data ! ?i]"
        using n d by simp
      ultimately show ?thesis using n "1.prems"(3) by simp
    next
      case cont: False
      have small: "\<not> shift + 7 > 63"
      proof
        assume "shift + 7 > 63"
        with inb cont "1.prems"(1) show False
          by (simp add: decode_varint_loop.simps [of data off result shift consumed])
      qed
      with inb cont "1.prems"(1)
      have rec: "decode_varint_loop data off ?r (shift + 7) (consumed + 1) = Inr (v, n)"
        by (simp add: decode_varint_loop.simps [of data off result shift consumed])
      have s': "shift + 7 = 7 * (consumed + 1)" using "1.prems"(2) by simp
      have c': "consumed + 1 \<le> 9" using small "1.prems"(2) by simp
      have x: "0 \<le> ?x" "?x < 128" by (simp_all add: low7_bound)
      have nn: "0 \<le> ?r" unfolding r using "1.prems"(4) x(1) by simp
      have "?x * 2 ^ shift \<le> 127 * 2 ^ shift"
        using x(2) by (intro mult_right_mono) simp_all
      then have "?r < 128 * 2 ^ shift" unfolding r using "1.prems"(5) by linarith
      then have ub: "?r < 2 ^ (shift + 7)" by (simp add: power_add)
      from "1.IH" [OF inb cont small rec s' c' nn ub]
      have le: "consumed + 1 \<le> n" and n10: "n \<le> 10"
        and v: "v = ?r + 2 ^ (shift + 7) *
                 base128_value (take (n - (consumed + 1)) (drop (off + (consumed + 1)) data))"
        by simp_all
      have "n - consumed = Suc (n - (consumed + 1))" using le by simp
      then have "take (n - consumed) (drop ?i data) =
                 data ! ?i # take (n - (consumed + 1)) (drop (off + (consumed + 1)) data)"
        using d by simp
      then have "base128_value (take (n - consumed) (drop ?i data)) =
                 ?x + 128 * base128_value (take (n - (consumed + 1)) (drop (off + (consumed + 1)) data))"
        by simp
      with v r have "v = result + 2 ^ shift * base128_value (take (n - consumed) (drop ?i data))"
        by (simp add: power_add algebra_simps)
      with le n10 show ?thesis by simp
    qed
  qed
qed

lemma decode_varint_value:
  assumes "decode_varint data off = Inr (v, n)"
  shows "v = base128_value (take n (drop off data)) \<and> n \<le> 10"
  using decode_varint_loop_value [of data off 0 0 0 v n] assms
  by (simp add: decode_varint_def)

lemma decode_varint_loop_overlong:
  "shift = 7 * consumed \<Longrightarrow> consumed \<le> 9 \<Longrightarrow>
   \<forall>k. consumed \<le> k \<and> k < 10 \<longrightarrow> off + k < length data \<and> data ! (off + k) AND 0x80 \<noteq> 0 \<Longrightarrow>
   decode_varint_loop data off result shift consumed = Inl ValueError"
proof (induction data off result shift consumed rule: decode_varint_loop.induct)
  case (1 data off result shift consumed)
  from "1.prems"(2,3) have inb: "off + consumed < length data"
    and cont: "data ! (off + consumed) AND 0x80 \<noteq> 0" by simp_all
  show ?case
  proof (cases "shift + 7 > 63")
    case True
    with inb cont show ?thesis
      by (simp add: decode_varint_loop.simps [of data off result shift consumed])
  next
    case False
    have s': "shift + 7 = 7 * (consumed + 1)" using "1.prems"(1) by simp
    have c': "consumed + 1 \<le> 9" using False "1.prems"(1) by simp
    have rest: "\<forall>k. consumed + 1 \<le> k \<and> k < 10 \<longrightarrow>
                 off + k < length data \<and> data ! (off + k) AND 0x80 \<noteq> 0"
      using "1.prems"(3) by simp
    from "1.IH" [OF inb cont False s' c' rest] inb cont False show ?thesis
      by (simp add: decode_varint_loop.simps [of data off result shift consumed])
  qed
qed

lemma decode_varint_overlong:
  assumes "off + 10 \<le> length data" and "\<forall>k<10. data ! (off + k) AND 0x80 \<noteq> 0"
  shows "decode_varint data off = Inl ValueError"
  unfolding decode_varint_def
  by (rule decode_varint_loop_overlong) (use assms in auto)

text \<open>
  Up to nine bytes with the continuation bit, followed by a byte without it or by the
  end of the data, always decode: to the base-128 number of exactly those bytes.
\<close>

lemma decode_varint_loop_shape:
  "shift = 7 * consumed \<Longrightarrow> consumed \<le> k \<Longrightarrow> k \<le> 9 \<Longrightarrow> off + k \<le> length data \<Longrightarrow>
   \<forall>j. consumed \<le> j \<and> j < k \<longrightarrow> data ! (off + j) AND 0x80 \<noteq> 0 \<Longrightarrow>
   (off + k < length data \<longrightarrow> data ! (off + k) AND 0x80 = 0) \<Longrightarrow>
   \<exists>v. decode_varint_loop data off result shift consumed =
         Inr (v, if off + k < length data then k + 1 else k)"
proof (induction data off result shift consumed rule: decode_varint_loop.induct)
  case (1 data off result shift consumed)
  show ?case
  proof (cases "consumed = k")
    case True
    show ?thesis
    proof (cases "off + k < length data")
      case inb: True
      then have i: "off + consumed < length data" using True by simp
      from inb "1.prems"(6) have t: "data ! (off + consumed) AND 0x80 = 0" using True by simp
      from i t have "decode_varint_loop data off result shift consumed =
          Inr (result OR push_bit shift (uint (data ! (off + consumed) AND 0x7F)), consumed + 1)"
        by (simp add: decode_varint_loop.simps [of data off result shift consumed])
      with inb True show ?thesis by simp
    next
      case False
      then have "\<not> off + consumed < length data" using True by simp
      then have "decode_varint_loop data off result shift consumed = Inr (result, consumed)"
        by (simp add: decode_varint_loop.simps [of data off result shift consumed])
      with False True show ?thesis by simp
    qed
  next
    case False
    with "1.prems"(2) have lt: "consumed < k" by simp
    with "1.prems"(4) have inb: "off + consumed < length data" by simp
    from lt "1.prems"(5) have cont: "data ! (off + consumed) AND 0x80 \<noteq> 0" by simp
    from lt "1.prems"(1,3) have small: "\<not> shift + 7 > 63" by simp
    have s': "shift + 7 = 7 * (consumed + 1)" using "1.prems"(1) by simp
    have le': "consumed + 1 \<le> k" using lt by simp
    have rest: "\<forall>j. consumed + 1 \<le> j \<and> j < k \<longrightarrow> data ! (off + j) AND 0x80 \<noteq> 0"
      using "1.prems"(5) by simp
    from "1.IH" [OF inb cont small s' le' "1.prems"(3,4) rest "1.prems"(6)]
      inb cont small
    show ?thesis
      by (simp add: decode_varint_loop.simps [of data off result shift consumed])
  qed
qed

lemma decode_varint_terminated:
  assumes "k \<le> 9" and "off + k < length data"
    and "\<forall>j<k. data ! (off + j) AND 0x80 \<noteq> 0" and "data ! (off + k) AND 0x80 = 0"
  shows "decode_varint data off = Inr (base128_value (take (k + 1) (drop off data)), k + 1)"
proof -
  have "\<exists>v. decode_varint_loop data off 0 0 0 =
         Inr (v, if off + k < length data then k + 1 else k)"
    by (rule decode_varint_loop_shape) (use assms in auto)
  then obtain v where v: "decode_varint data off = Inr (v, k + 1)"
    using assms(2) by (auto simp add: decode_varint_def)
  from decode_varint_value [OF v] v show ?thesis by simp
qed

lemma decode_varint_truncated:
  assumes "k \<le> 9" and "off + k = length data"
    and "\<forall>j<k. data ! (off + j) AND 0x80 \<noteq> 0"
  shows "decode_varint data off = Inr (base128_value (take k (drop off data)), k)"
proof -
  have "\<exists>v. decode_varint_loop data off 0 0 0 =
         Inr (v, if off + k < length data then k + 1 else k)"
    by (rule decode_varint_loop_shape) (use assms in auto)
  then obtain v where v: "decode_varint data off = Inr (v, k)"
    using assms(2) by (auto simp add: decode_varint_def)
  from decode_varint_value [OF v] v show ?thesis by simp
qed

subsection \<open>Duration recovery\<close>

lemma find_duration_None_sentinels:
  assumes "\<forall>j. j + 2 < length data \<and> data ! j = 0x10 \<longrightarrow> duration_candidate data j = None"
  shows "find_duration data = Inr None"
proof (rule find_duration_None, intro allI impI)
  fix j assume j: "j + 2 < length data"
  show "duration_candidate data j = None"
  proof (cases "data ! j = 0x10")
    case True
    with j assms show ?thesis by blast
  next
    case False
    then show ?thesis by (simp add: duration_candidate_def)
  qed
qed

lemma find_duration_no_sentinel_prefix:
  assumes "0x10 \<notin> set (take (length data - 2) data)"
  shows "find_duration data = Inr None"
proof (rule find_duration_None_sentinels, intro allI impI)
  fix j assume "j + 2 < length data \<and> data ! j = 0x10"
  then have j: "j < length (take (length data - 2) data)" and s: "data ! j = 0x10" by auto
  from j have "take (length data - 2) data ! j \<in> set (take (length data - 2) data)"
    by (rule nth_mem)
  moreover have "take (length data - 2) data ! j = data ! j" using j by simp
  ultimately have "data ! j \<in> set (take (length data - 2) data)" by simp
  with s assms show "duration_candidate data j = None" by simp
qed

lemma all_nth_slice:
  assumes "\<forall>b\<in>set (take n (drop off xs)). P b" and "off + n \<le> length xs"
  shows "\<forall>k<n. P (xs ! (off + k))"
proof (intro allI impI)
  fix k assume k: "k < n"
  with assms(2) have "k < length (take n (drop off xs))" by simp
  then have "take n (drop off xs) ! k \<in> set (take n (drop off xs))" by (rule nth_mem)
  moreover have "take n (drop off xs) ! k = xs ! (off + k)" using k assms(2) by simp
  ultimately show "P (xs ! (off + k))" using assms(1) by simp
qed

text \<open>
  Claim C2 (as amended). Duration recovery scans the offsets \<open>0 .. len(data) - 3\<close> in
  ascending order (a byte 0x10 in one of the last two positions is not examined). At
  each byte 0x10 it decodes the varint that follows: the little-endian base-128 number of
  the consumed bytes. The first decoded value in [10, 10000] is the duration. When no
  offset yields an accepted value the duration is 500. A varint whose first 10 bytes all
  carry the continuation bit raises \<open>ValueError\<close>, which rejects that candidate only.
  The decoder itself: at most nine bytes with the high bit set, then a byte without it,
  are consumed whole and decode to their base-128 number; when the data ends after at
  most nine such bytes, those bytes are consumed and decoded.
\<close>

theorem duration_is_first_accepted_candidate:
  "(i + 2 < length data \<and> data ! i = 0x10 \<and> decode_varint data (i + 1) = Inr (d, c) \<and>
    10 \<le> d \<and> d \<le> 10000 \<and> (\<forall>j<i. duration_candidate data j = None) \<longrightarrow>
      find_duration data = Inr (Some d) \<and>
      d = base128_value (take c (drop (i + 1) data)) \<and>
      (\<forall>p. find_position data = Some p \<longrightarrow>
         parse_linear_cmd_from_protobuf data =
           Inr (Some \<lparr>vectors = [\<lparr>position = p, vector.duration_ms = d\<rparr>]\<rparr>))) \<and>
   ((\<forall>j. j + 2 < length data \<longrightarrow> duration_candidate data j = None) \<longrightarrow>
      find_duration data = Inr None \<and>
      (\<forall>p. find_position data = Some p \<longrightarrow>
         parse_linear_cmd_from_protobuf data =
           Inr (Some \<lparr>vectors = [\<lparr>position = p, vector.duration_ms = 500\<rparr>]\<rparr>))) \<and>
   (i + 11 \<le> length data \<and> (\<forall>k<10. data ! (i + 1 + k) AND 0x80 \<noteq> 0) \<longrightarrow>
      decode_varint data (i + 1) = Inl ValueError \<and> duration_candidate data i = None) \<and>
   (k \<le> 9 \<and> off + k < length data \<and> (\<forall>j<k. data ! (off + j) AND 0x80 \<noteq> 0) \<and>
    data ! (off + k) AND 0x80 = 0 \<longrightarrow>
      decode_varint data off = Inr (base128_value (take (k + 1) (drop off data)), k + 1)) \<and>
   (k \<le> 9 \<and> off + k = length data \<and> (\<forall>j<k. data ! (off + j) AND 0x80 \<noteq> 0) \<longrightarrow>
      decode_varint data off = Inr (base128_value (take k (drop off data)), k))"
proof (intro conjI impI allI)
  assume h: "i + 2 < length data \<and> data ! i = 0x10 \<and> decode_varint data (i + 1) = Inr (d, c) \<and>
    10 \<le> d \<and> d \<le> 10000 \<and> (\<forall>j<i. duration_candidate data j = None)"
  then have cand: "duration_candidate data i = Some d"
    by (simp add: duration_candidate_def)
  from h have i: "i + 2 < length data" and before: "\<forall>j<i. duration_candidate data j = None"
    by blast+
  show fd: "find_duration data = Inr (Some d)"
    using i cand before by (rule find_duration_Some)
  show "d = base128_value (take c (drop (i + 1) data))"
    using h decode_varint_value [of data "i + 1" d c] by simp
  fix p assume "find_position data = Some p"
  from parse_position [OF this fd] h
  show "parse_linear_cmd_from_protobuf data =
           Inr (Some \<lparr>vectors = [\<lparr>position = p, vector.duration_ms = d\<rparr>]\<rparr>)"
    by simp
next
  assume h: "\<forall>j. j + 2 < length data \<longrightarrow> duration_candidate data j = None"
  then show fd: "find_duration data = Inr None" by (rule find_duration_None)
  fix p assume "find_position data = Some p"
  from parse_position [OF this fd]
  show "parse_linear_cmd_from_protobuf data =
           Inr (Some \<lparr>vectors = [\<lparr>position = p, vector.duration_ms = 500\<rparr>]\<rparr>)"
    by simp
next
  assume h: "i + 11 \<le> length data \<and> (\<forall>k<10. data ! (i + 1 + k) AND 0x80 \<noteq> 0)"
  then have "i + 1 + 10 \<le> length data" and "\<forall>k<10. data ! (i + 1 + k) AND 0x80 \<noteq> 0"
    by simp_all
  then show e: "decode_varint data (i + 1) = Inl ValueError"
    by (rule decode_varint_overlong)
  then show "duration_candidate data i = None"
    by (simp add: duration_candidate_def)
next
  assume h: "k \<le> 9 \<and> off + k < length data \<and> (\<forall>j<k. data ! (off + j) AND 0x80 \<noteq> 0) \<and>
    data ! (off + k) AND 0x80 = 0"
  then have "k \<le> 9" and "off + k < length data"
    and "\<forall>j<k. data ! (off + j) AND 0x80 \<noteq> 0" and "data ! (off + k) AND 0x80 = 0"
    by blast+
  then show "decode_varint data off = Inr (base128_value (take (k + 1) (drop off data)), k + 1)"
    by (rule decode_varint_terminated)
next
  assume h: "k \<le> 9 \<and> off + k = length data \<and> (\<forall>j<k. data ! (off + j) AND 0x80 \<noteq> 0)"
  then have "k \<le> 9" and "off + k = length data"
    and "\<forall>j<k. data ! (off + j) AND 0x80 \<noteq> 0"
    by blast+
  then show "decode_varint data off = Inr (base128_value (take k (drop off data)), k)"
    by (rule decode_varint_truncated)
qed

text \<open>
  The theorem at the payload "0x10, varint 250, 0.75", and at a payload whose only byte
  0x10 is followed by an over-long varint: the command with position 0.75 and the default
  duration is still returned. The decoder at a 10-byte varint, at a 3-byte varint and at
  a varint cut off by the end of the data.
\<close>

theorem duration_is_first_accepted_candidate_witness:
  "parse_linear_cmd_from_protobuf [0x10, 0xFA, 0x01, 0, 0, 0, 0, 0, 0, 0xE8, 0x3F] =
     Inr (Some \<lparr>vectors = [\<lparr>position = 0x3FE8000000000000, vector.duration_ms = 250\<rparr>]\<rparr>) \<and>
   base128_value [0xFA, 0x01] = 250 \<and>
   decode_varint [0x10, 0xFF, 0xFF, 0xFF, 0xFF, 0xFF, 0xFF, 0xFF, 0xFF, 0xFF, 0xFF, 0x01,
                  0, 0, 0, 0, 0, 0, 0xE8, 0x3F] 1 = Inl ValueError \<and>
   parse_linear_cmd_from_protobuf
     [0x10, 0xFF, 0xFF, 0xFF, 0xFF, 0xFF, 0xFF, 0xFF, 0xFF, 0xFF, 0xFF, 0x01,
      0, 0, 0, 0, 0, 0, 0xE8, 0x3F] =
     Inr (Some \<lparr>vectors = [\<lparr>position = 0x3FE8000000000000, vector.duration_ms = 500\<rparr>]\<rparr>) \<and>
   decode_varint [0xFF, 0xFF, 0xFF, 0xFF, 0xFF, 0xFF, 0xFF, 0xFF, 0xFF, 0x01] 0 =
     Inr (18446744073709551615, 10) \<and>
   decode_varint [0x10, 0x80, 0x80, 0x01] 1 = Inr (16384, 3) \<and>
   decode_varint [0x10, 0xAC, 0x82] 1 = Inr (300, 2)"
proof -
  let ?V = "[0xFF, 0xFF, 0xFF, 0xFF, 0xFF, 0xFF, 0xFF, 0xFF, 0xFF, 0x01] :: byte list"
  let ?W = "[0x10, 0x80, 0x80, 0x01] :: byte list"
  let ?T = "[0x10, 0xAC, 0x82] :: byte list"
  have "\<forall>j<9. ?V ! (0 + j) AND 0x80 \<noteq> 0"
    by (rule all_nth_slice) simp_all
  then have hv: "(9::nat) \<le> 9 \<and> 0 + 9 < length ?V \<and> (\<forall>j<9. ?V ! (0 + j) AND 0x80 \<noteq> 0) \<and>
      ?V ! (0 + 9) AND 0x80 = 0"
    by simp
  from duration_is_first_accepted_candidate [where data = ?V and off = 0 and k = 9,
      THEN conjunct2, THEN conjunct2, THEN conjunct2, THEN conjunct1, THEN mp, OF hv]
  have long: "decode_varint ?V 0 = Inr (18446744073709551615, 10)"
    by simp
  have "\<forall>j<2. ?W ! (1 + j) AND 0x80 \<noteq> 0"
    by (rule all_nth_slice) simp_all
  then have hw: "(2::nat) \<le> 9 \<and> 1 + 2 < length ?W \<and> (\<forall>j<2. ?W ! (1 + j) AND 0x80 \<noteq> 0) \<and>
      ?W ! (1 + 2) AND 0x80 = 0"
    by simp
  from duration_is_first_accepted_candidate [where data = ?W and off = 1 and k = 2,
      THEN conjunct2, THEN conjunct2, THEN conjunct2, THEN conjunct1, THEN mp, OF hw]
  have three: "decode_varint ?W 1 = Inr (16384, 3)"
    by simp
  have "\<forall>j<2. ?T ! (1 + j) AND 0x80 \<noteq> 0"
    by (rule all_nth_slice) simp_all
  then have ht: "(2::nat) \<le> 9 \<and> 1 + 2 = length ?T \<and> (\<forall>j<2. ?T ! (1 + j) AND 0x80 \<noteq> 0)"
    by simp
  from duration_is_first_accepted_candidate [where data = ?T and off = 1 and k = 2,
      THEN conjunct2, THEN conjunct2, THEN conjunct2, THEN conjunct2, THEN mp, OF ht]
  have cut: "decode_varint ?T 1 = Inr (300, 2)"
    by simp
  let ?A = "[0x10, 0xFA, 0x01, 0, 0, 0, 0, 0, 0, 0xE8, 0x3F] :: byte list"
  let ?C = "[0x10, 0xFF, 0xFF, 0xFF, 0xFF, 0xFF, 0xFF, 0xFF, 0xFF, 0xFF, 0xFF, 0x01,
             0, 0, 0, 0, 0, 0, 0xE8, 0x3F] :: byte list"
  have a1: "in_unit (double_at ?A 3)"
    by (simp add: double_at_def window_def fp_defs)
  have a2: "double_at ?A 3 = 0x3FE8000000000000"
    by (simp add: double_at_def window_def)
  have "find_position ?A = Some (double_at ?A 3)"
    by (rule find_position_Some) (use a1 in auto)
  then have pa: "find_position ?A = Some 0x3FE8000000000000" using a2 by simp
  have va: "decode_varint ?A (0 + 1) = Inr (250, 2)"
    by code_simp
  have ha: "0 + 2 < length ?A \<and> ?A ! 0 = 0x10 \<and> decode_varint ?A (0 + 1) = Inr (250, 2) \<and>
            (10::int) \<le> 250 \<and> (250::int) \<le> 10000 \<and> (\<forall>j<0. duration_candidate ?A j = None)"
    using va by simp
  from duration_is_first_accepted_candidate [where data = ?A and i = 0 and d = 250 and c = 2,
      THEN conjunct1, THEN mp, OF ha] pa
  have first: "parse_linear_cmd_from_protobuf ?A =
       Inr (Some \<lparr>vectors = [\<lparr>position = 0x3FE8000000000000, vector.duration_ms = 250\<rparr>]\<rparr>)"
    and val: "250 = base128_value (take 2 (drop (0 + 1) ?A))"
    by blast+
  have c1: "in_unit (double_at ?C 12)"
    by (simp add: double_at_def window_def fp_defs)
  have c2: "double_at ?C 12 = 0x3FE8000000000000"
    by (simp add: double_at_def window_def)
  have "find_position ?C = Some (double_at ?C 12)"
    by (rule find_position_Some) (use c1 in auto)
  then have pc: "find_position ?C = Some 0x3FE8000000000000" using c2 by simp
  have "\<forall>k<10. ?C ! (0 + 1 + k) AND 0x80 \<noteq> 0"
    by (rule all_nth_slice) simp_all
  then have hc: "0 + 11 \<le> length ?C \<and> (\<forall>k<10. ?C ! (0 + 1 + k) AND 0x80 \<noteq> 0)"
    by simp
  from duration_is_first_accepted_candidate [where data = ?C and i = 0,
      THEN conjunct2, THEN conjunct2, THEN conjunct1, THEN mp, OF hc]
  have err: "decode_varint ?C (0 + 1) = Inl ValueError"
    and c0: "duration_candidate ?C 0 = None"
    by blast+
  have none: "\<forall>j. j + 2 < length ?C \<longrightarrow> duration_candidate ?C j = None"
  proof (intro allI impI)
    fix j assume j: "j + 2 < length ?C"
    show "duration_candidate ?C j = None"
    proof (cases j)
      case 0
      with c0 show ?thesis by simp
    next
      case (Suc m)
      with j have "m < length (tl ?C)" by simp
      then have "tl ?C ! m \<in> set (tl ?C)" by (rule nth_mem)
      then have "?C ! j \<in> set (tl ?C)" using Suc by simp
      then have "?C ! j \<noteq> 0x10" by auto
      then show ?thesis by (simp add: duration_candidate_def)
    qed
  qed
  from duration_is_first_accepted_candidate [where data = ?C,
      THEN conjunct2, THEN conjunct1, THEN mp, OF none] pc
  have second: "parse_linear_cmd_from_protobuf ?C =
       Inr (Some \<lparr>vectors = [\<lparr>position = 0x3FE8000000000000, vector.duration_ms = 500\<rparr>]\<rparr>)"
    by blast
  have val': "base128_value [0xFA, 0x01] = 250"
    using val by simp
  have err': "decode_varint ?C 1 = Inl ValueError"
    using err by (simp only: add.left_neutral)
  show ?thesis
    by (intro conjI) (fact first, fact val', fact err', fact second, fact long, fact three,
      fact cut)
qed

text \<open>
  The claim as first stated fails: not every occurrence of 0x10 is examined. In the
  payload below the byte 0x10 at offset 8 is followed by the varint 50, which lies in
  [10, 10000], yet the parser returns the default duration 500.
\<close>

theorem trailing_sentinel_counterexample:
  "[0, 0, 0, 0, 0, 0, 0, 0, 0x10, 0x32 :: byte] ! 8 = 0x10 \<and>
   decode_varint [0, 0, 0, 0, 0, 0, 0, 0, 0x10, 0x32] 9 = Inr (50, 1) \<and>
   parse_linear_cmd_from_protobuf [0, 0, 0, 0, 0, 0, 0, 0, 0x10, 0x32] =
     Inr (Some \<lparr>vectors = [\<lparr>position = 0x3210000000000000, vector.duration_ms = 500\<rparr>]\<rparr>)"
proof -
  let ?D = "[0, 0, 0, 0, 0, 0, 0, 0, 0x10, 0x32] :: byte list"
  have d1: "in_unit (double_at ?D 2)"
    by (simp add: double_at_def window_def fp_defs)
  have d2: "double_at ?D 2 = 0x3210000000000000"
    by (simp add: double_at_def window_def)
  have "find_position ?D = Some (double_at ?D 2)"
    by (rule find_position_Some) (use d1 in auto)
  then have p: "find_position ?D = Some 0x3210000000000000" using d2 by simp
  have d: "find_duration ?D = Inr None"
    by (rule find_duration_no_sentinel_prefix) simp
  have v: "decode_varint ?D 9 = Inr (50, 1)"
    by code_simp
  from parse_position [OF p d] v show ?thesis by simp
qed

section \<open>Properties of the movement model\<close>

lemma interpolation_bounds:
  fixes a b p :: real
  assumes "0 \<le> a" "a \<le> 1" "0 \<le> b" "b \<le> 1" "0 \<le> p" "p \<le> 1"
  shows "0 \<le> a + (b - a) * p" and "a + (b - a) * p \<le> 1"
proof -
  have eq: "a + (b - a) * p = (1 - p) * a + p * b" by (simp add: algebra_simps)
  have "0 \<le> (1 - p) * a" and "0 \<le> p * b" using assms by simp_all
  then show "0 \<le> a + (b - a) * p" unfolding eq by simp
  have "(1 - p) * a \<le> (1 - p) * 1" using assms by (intro mult_left_mono) simp_all
  moreover have "p * b \<le> p * 1" using assms by (intro mult_left_mono) simp_all
  ultimately show "a + (b - a) * p \<le> 1" unfolding eq by simp
qed

lemma movement_inv_mono: "movement_inv t s \<Longrightarrow> t \<le> t' \<Longrightarrow> movement_inv t' s"
  by (auto simp add: movement_inv_def split: option.splits)

lemma movement_inv_init: "movement_inv t init"
  by (simp add: movement_inv_def init_def)

lemma float_of_int_ok: "float_range n \<Longrightarrow> float_of_int n = Inr (real_of_int n)"
  by (simp add: float_range_def float_of_int_def)

lemma float_of_int_overflow: "\<not> float_range n \<Longrightarrow> float_of_int n = Inl OverflowError"
  by (simp add: float_range_def float_of_int_def)

lemma float_range_max: "float_range (max 10 dur) \<longleftrightarrow> dur < 2 ^ 1024 - 2 ^ 970"
proof -
  have "(10 :: int) < 2 ^ 1024 - 2 ^ 970" by simp
  then show ?thesis unfolding float_range_def by (auto simp add: max_def)
qed

lemma start_movement_ok:
  assumes "float_range (max 10 dur)"
  shows "start_movement now pos dur s =
     Inr (s\<lparr>speed_mms := (if \<bar>max 0 (min 1 pos) - current_position s\<bar> > 0.001
                          then \<bar>max 0 (min 1 pos) - current_position s\<bar> * 125 /
                               (real_of_int (max 10 dur) / 1000)
                          else 0),
            current_movement := Some \<lparr>start_position = current_position s,
                                      Movement.target_position = max 0 (min 1 pos),
                                      Movement.duration_ms = max 10 dur,
                                      start_time_ms = now,
                                      is_active = True\<rparr>,
            HandySimulator.target_position := max 0 (min 1 pos)\<rparr>)"
proof -
  have "real_of_int (max 10 dur) / 1000 \<noteq> 0" by simp
  then show ?thesis
    using float_of_int_ok [OF assms]
    by (simp add: start_movement_def py_div_def Let_def)
qed

lemma start_movement_near:
  assumes "\<not> \<bar>max 0 (min 1 pos) - current_position s\<bar> > 0.001"
  shows "start_movement now pos dur s =
     Inr (s\<lparr>speed_mms := 0,
            current_movement := Some \<lparr>start_position = current_position s,
                                      Movement.target_position = max 0 (min 1 pos),
                                      Movement.duration_ms = max 10 dur,
                                      start_time_ms = now,
                                      is_active = True\<rparr>,
            HandySimulator.target_position := max 0 (min 1 pos)\<rparr>)"
  using assms by (simp add: start_movement_def Let_def)

lemma start_movement_overflow:
  assumes "\<not> float_range (max 10 dur)"
    and "\<bar>max 0 (min 1 pos) - current_position s\<bar> > 0.001"
  shows "start_movement now pos dur s = Inl OverflowError"
  using assms(2) float_of_int_overflow [OF assms(1)]
  by (simp add: start_movement_def Let_def)

lemma start_movement_InrD:
  assumes "start_movement now pos dur s = Inr s'"
  shows "\<exists>speed. s' = s\<lparr>speed_mms := speed,
            current_movement := Some \<lparr>start_position = current_position s,
                                      Movement.target_position = max 0 (min 1 pos),
                                      Movement.duration_ms = max 10 dur,
                                      start_time_ms = now,
                                      is_active = True\<rparr>,
            HandySimulator.target_position := max 0 (min 1 pos)\<rparr>"
proof (cases "\<bar>max 0 (min 1 pos) - current_position s\<bar> > 0.001")
  case False
  from start_movement_near [OF False, of now dur] assms show ?thesis by auto
next
  case far: True
  show ?thesis
  proof (cases "float_range (max 10 dur)")
    case True
    from start_movement_ok [OF True, of now pos s] assms show ?thesis by auto
  next
    case False
    from start_movement_overflow [OF False far, of now] assms show ?thesis by simp
  qed
qed

lemma start_movement_inv:
  assumes "start_movement now pos dur s = Inr s'" and "movement_inv t s"
  shows "movement_inv now s'"
proof -
  from start_movement_InrD [OF assms(1)] obtain speed where
    "s' = s\<lparr>speed_mms := speed,
            current_movement := Some \<lparr>start_position = current_position s,
                                      Movement.target_position = max 0 (min 1 pos),
                                      Movement.duration_ms = max 10 dur,
                                      start_time_ms = now,
                                      is_active = True\<rparr>,
            HandySimulator.target_position := max 0 (min 1 pos)\<rparr>"
    by blast
  with assms(2) show ?thesis
    by (simp add: movement_inv_def)
qed

lemma update_position_idle:
  "current_movement s = None \<Longrightarrow> update_position now s = Inr s"
  by (simp add: update_position_def)

lemma update_position_inactive:
  "current_movement s = Some m \<Longrightarrow> \<not> is_active m \<Longrightarrow> update_position now s = Inr s"
  by (simp add: update_position_def)

lemma update_position_done:
  "current_movement s = Some m \<Longrightarrow> is_active m \<Longrightarrow>
   now - start_time_ms m \<ge> real_of_int (Movement.duration_ms m) \<Longrightarrow>
   update_position now s =
     Inr (s\<lparr>current_position := Movement.target_position m, speed_mms := 0,
            current_movement := None\<rparr>)"
  by (simp add: update_position_def)

lemma update_position_moving:
  assumes "current_movement s = Some m" and "is_active m" and "start_time_ms m \<le> now"
    and "\<not> now - start_time_ms m \<ge> real_of_int (Movement.duration_ms m)"
    and "float_range (Movement.duration_ms m)"
  shows "update_position now s =
     Inr (s\<lparr>current_position := start_position m +
            (Movement.target_position m - start_position m) *
            ((now - start_time_ms m) / real_of_int (Movement.duration_ms m))\<rparr>)"
proof -
  have "real_of_int (Movement.duration_ms m) \<noteq> 0" using assms(3,4) by auto
  with assms(1,2,4) float_of_int_ok [OF assms(5)] show ?thesis
    by (simp add: update_position_def py_div_def Let_def)
qed

lemma update_position_overflow:
  assumes "current_movement s = Some m" and "is_active m"
    and "\<not> now - start_time_ms m \<ge> real_of_int (Movement.duration_ms m)"
    and "\<not> float_range (Movement.duration_ms m)"
  shows "update_position now s = Inl OverflowError"
  using assms(1,2,3) float_of_int_overflow [OF assms(4)]
  by (simp add: update_position_def Let_def)

lemma update_position_inv:
  assumes "update_position now s = Inr s'" and "movement_inv t s" and "t \<le> now"
  shows "movement_inv now s'"
proof (cases "current_movement s")
  case None
  with assms(1) have "s' = s" by (simp add: update_position_idle)
  with assms(2,3) show ?thesis using movement_inv_mono by blast
next
  case (Some m)
  from assms(2) Some have m: "0 \<le> start_position m" "start_position m \<le> 1"
    "Movement.target_position m = HandySimulator.target_position s"
    "10 \<le> Movement.duration_ms m" "start_time_ms m \<le> t"
    and s: "0 \<le> HandySimulator.target_position s" "HandySimulator.target_position s \<le> 1"
    by (simp_all add: movement_inv_def)
  have st: "start_time_ms m \<le> now" using m(5) assms(3) by simp
  show ?thesis
  proof (cases "is_active m")
    case False
    with Some assms(1) have "s' = s" by (simp add: update_position_inactive)
    with assms(2,3) show ?thesis using movement_inv_mono by blast
  next
    case act: True
    show ?thesis
    proof (cases "now - start_time_ms m \<ge> real_of_int (Movement.duration_ms m)")
      case True
      from update_position_done [OF Some act True] assms(1)
      have "s' = s\<lparr>current_position := Movement.target_position m, speed_mms := 0,
                 current_movement := None\<rparr>"
        by simp
      then show ?thesis using m s by (simp add: movement_inv_def)
    next
      case False
      show ?thesis
      proof (cases "float_range (Movement.duration_ms m)")
        case ovf: False
        from update_position_overflow [OF Some act False ovf] assms(1)
        show ?thesis by simp
      next
        case True
        let ?p = "(now - start_time_ms m) / real_of_int (Movement.duration_ms m)"
        have d: "0 < real_of_int (Movement.duration_ms m)" using m(4) by simp
        have p0: "0 \<le> ?p" using st d by simp
        have p1: "?p \<le> 1" using False d by simp
        have b: "0 \<le> Movement.target_position m" "Movement.target_position m \<le> 1"
          using m(3) s by simp_all
        note ib = interpolation_bounds [OF m(1,2) b p0 p1]
        from update_position_moving [OF Some act st False True] assms(1)
        have "s' = s\<lparr>current_position := start_position m +
              (Movement.target_position m - start_position m) * ?p\<rparr>"
          by simp
        then show ?thesis
          using ib m s st Some by (simp add: movement_inv_def)
      qed
    qed
  qed
qed

lemma step_inv:
  assumes "movement_inv t s" and "t \<le> fst c"
  shows "movement_inv (fst c) (step s c)"
proof (cases "apply_op s c")
  case (Inl e)
  then have "step s c = s" by (simp add: step_def)
  with assms show ?thesis using movement_inv_mono by simp
next
  case (Inr s')
  then have st: "step s c = s'" by (simp add: step_def)
  obtain now o' where c: "c = (now, o')" by (cases c)
  have "movement_inv now s'"
  proof (cases o')
    case (StartMovement pos dur)
    with Inr c have "start_movement now pos dur s = Inr s'" by simp
    then show ?thesis using assms(1) by (rule start_movement_inv)
  next
    case Tick
    with Inr c have u: "update_position now s = Inr s'" by simp
    from assms(2) c have "t \<le> now" by simp
    with u assms(1) show ?thesis by (rule update_position_inv)
  qed
  with st c show ?thesis by simp
qed

lemma run_inv:
  "movement_inv t s \<Longrightarrow> sorted (map fst ops) \<Longrightarrow> \<forall>c\<in>set ops. t \<le> fst c \<Longrightarrow>
   \<exists>t'. movement_inv t' (run s ops)"
proof (induction ops arbitrary: t s)
  case Nil
  then show ?case by auto
next
  case (Cons c ops)
  from Cons.prems(3) have "t \<le> fst c" by simp
  with Cons.prems(1) have s1: "movement_inv (fst c) (step s c)" by (rule step_inv)
  from Cons.prems(2) have "sorted (map fst ops)" and "\<forall>d\<in>set ops. fst c \<le> fst d"
    by simp_all
  with Cons.IH [OF s1] show ?case by simp
qed

lemma run_ticks_idle:
  "current_movement s = None \<Longrightarrow> run s (ticks ts) = s"
  by (induction ts) (simp_all add: ticks_def step_def update_position_idle)

subsection \<open>The physics tick\<close>

text \<open>
  Claim C3 (as amended). With an active movement and a clock reading not before its start:
  once the elapsed time reaches the duration, \<open>update_position\<close> sets the position to the
  movement's target, zeroes the speed and clears the movement; before that, provided the
  duration converts to a float, it sets the position to
  \<open>start + (target - start) * (elapsed / duration)\<close>, and otherwise it raises
  \<open>OverflowError\<close>. Without an active movement it changes nothing, so any sequence of
  ticks of an idle simulator leaves the state as it is.
\<close>

theorem tick_behaviour:
  "(current_movement s = Some m \<and> is_active m \<and> start_time_ms m \<le> now \<longrightarrow>
     (if now - start_time_ms m \<ge> real_of_int (Movement.duration_ms m)
      then update_position now s =
             Inr (s\<lparr>current_position := Movement.target_position m, speed_mms := 0,
                    current_movement := None\<rparr>)
      else if float_range (Movement.duration_ms m)
      then update_position now s =
             Inr (s\<lparr>current_position := start_position m +
                    (Movement.target_position m - start_position m) *
                    ((now - start_time_ms m) / real_of_int (Movement.duration_ms m))\<rparr>)
      else update_position now s = Inl OverflowError)) \<and>
   ((case current_movement s of None \<Rightarrow> True | Some m' \<Rightarrow> \<not> is_active m') \<longrightarrow>
      update_position now s = Inr s) \<and>
   (current_movement s = None \<longrightarrow> run s (ticks ts) = s)"
proof (intro conjI impI)
  assume h: "current_movement s = Some m \<and> is_active m \<and> start_time_ms m \<le> now"
  then have cm: "current_movement s = Some m" and act: "is_active m"
    and st: "start_time_ms m \<le> now"
    by blast+
  show "if now - start_time_ms m \<ge> real_of_int (Movement.duration_ms m)
      then update_position now s =
             Inr (s\<lparr>current_position := Movement.target_position m, speed_mms := 0,
                    current_movement := None\<rparr>)
      else if float_range (Movement.duration_ms m)
      then update_position now s =
             Inr (s\<lparr>current_position := start_position m +
                    (Movement.target_position m - start_position m) *
                    ((now - start_time_ms m) / real_of_int (Movement.duration_ms m))\<rparr>)
      else update_position now s = Inl OverflowError"
  proof (cases "now - start_time_ms m \<ge> real_of_int (Movement.duration_ms m)")
    case True
    with update_position_done [OF cm act True] show ?thesis by simp
  next
    case before: False
    show ?thesis
    proof (cases "float_range (Movement.duration_ms m)")
      case True
      with update_position_moving [OF cm act st before True] before show ?thesis by simp
    next
      case False
      with update_position_overflow [OF cm act before False] before show ?thesis by simp
    qed
  qed
next
  assume "case current_movement s of None \<Rightarrow> True | Some m' \<Rightarrow> \<not> is_active m'"
  then show "update_position now s = Inr s"
    by (cases "current_movement s")
       (simp_all add: update_position_idle update_position_inactive)
next
  assume "current_movement s = None"
  then show "run s (ticks ts) = s" by (rule run_ticks_idle)
qed

text \<open>
  The theorem on the movement from 0.5 to 0.9 in 100 ms started at time 0: halfway at
  time 50, completed at time 100, unchanged by later ticks.
\<close>

theorem tick_behaviour_witness:
  "update_position 50
     \<lparr>current_position = 0.5, target_position = 0.9,
      current_movement = Some \<lparr>start_position = 0.5, Movement.target_position = 0.9,
        Movement.duration_ms = 100, start_time_ms = 0, is_active = True\<rparr>,
      speed_mms = 500\<rparr> =
   Inr \<lparr>current_position = 0.7, target_position = 0.9,
      current_movement = Some \<lparr>start_position = 0.5, Movement.target_position = 0.9,
        Movement.duration_ms = 100, start_time_ms = 0, is_active = True\<rparr>,
      speed_mms = 500\<rparr> \<and>
   update_position 100
     \<lparr>current_position = 0.7, target_position = 0.9,
      current_movement = Some \<lparr>start_position = 0.5, Movement.target_position = 0.9,
        Movement.duration_ms = 100, start_time_ms = 0, is_active = True\<rparr>,
      speed_mms = 500\<rparr> =
   Inr \<lparr>current_position = 0.9, target_position = 0.9, current_movement = None,
      speed_mms = 0\<rparr> \<and>
   update_position 120
     \<lparr>current_position = 0.9, target_position = 0.9, current_movement = None, speed_mms = 0\<rparr> =
   Inr \<lparr>current_position = 0.9, target_position = 0.9, current_movement = None,
      speed_mms = 0\<rparr> \<and>
   run \<lparr>current_position = 0.9, target_position = 0.9, current_movement = None, speed_mms = 0\<rparr>
     (ticks [120, 140, 160]) =
   \<lparr>current_position = 0.9, target_position = 0.9, current_movement = None, speed_mms = 0\<rparr>"
proof -
  let ?m = "\<lparr>start_position = 0.5, Movement.target_position = 0.9,
        Movement.duration_ms = 100, start_time_ms = 0, is_active = True\<rparr>"
  let ?s = "\<lambda>p. \<lparr>current_position = p, target_position = 0.9,
      current_movement = Some ?m, speed_mms = 500\<rparr>"
  let ?idle = "\<lparr>current_position = 0.9, target_position = 0.9, current_movement = None,
      speed_mms = 0 :: real\<rparr>"
  have fr: "float_range 100" by (simp add: float_range_def)
  have a: "update_position 50 (?s 0.5) = Inr (?s 0.7)"
    using tick_behaviour [where s = "?s 0.5" and m = ?m and now = 50, THEN conjunct1] fr
    by simp
  have b: "update_position 100 (?s 0.7) = Inr ?idle"
    using tick_behaviour [where s = "?s 0.7" and m = ?m and now = 100, THEN conjunct1]
    by simp
  have c: "update_position 120 ?idle = Inr ?idle"
    using tick_behaviour [where s = ?idle and now = 120, THEN conjunct2, THEN conjunct1]
    by simp
  have d: "run ?idle (ticks [120, 140, 160]) = ?idle"
    using tick_behaviour [where s = ?idle and ts = "[120, 140, 160]",
        THEN conjunct2, THEN conjunct2]
    by simp
  show ?thesis
    by (intro conjI) (fact a, fact b, fact c, fact d)
qed

text \<open>
  The claim as first stated fails for a duration beyond the range of a float:
  \<open>start_movement(0.5, 2 ** 1024)\<close> on the initial state installs such a movement (the
  target is the current position, so no speed is computed), and the tick at time 5,
  before the movement is over, raises \<open>OverflowError\<close> instead of interpolating.
\<close>

theorem tick_overflow_counterexample:
  "start_movement 0 0.5 (2 ^ 1024) init =
     Inr \<lparr>current_position = 0.5, target_position = 0.5,
          current_movement = Some \<lparr>start_position = 0.5, Movement.target_position = 0.5,
            Movement.duration_ms = 2 ^ 1024, start_time_ms = 0, is_active = True\<rparr>,
          speed_mms = 0\<rparr> \<and>
   update_position 5
     \<lparr>current_position = 0.5, target_position = 0.5,
      current_movement = Some \<lparr>start_position = 0.5, Movement.target_position = 0.5,
        Movement.duration_ms = 2 ^ 1024, start_time_ms = 0, is_active = True\<rparr>,
      speed_mms = 0\<rparr> = Inl OverflowError"
proof -
  let ?m = "\<lparr>start_position = 0.5, Movement.target_position = 0.5,
        Movement.duration_ms = 2 ^ 1024, start_time_ms = 0 :: real, is_active = True\<rparr>"
  let ?s = "\<lparr>current_position = 0.5, target_position = 0.5,
      current_movement = Some ?m, speed_mms = 0 :: real\<rparr>"
  have big: "\<not> float_range (2 ^ 1024)" by (simp add: float_range_def)
  have "(5 :: real) < 2 ^ 1024" by simp
  then have before: "\<not> 5 - start_time_ms ?m \<ge> real_of_int (Movement.duration_ms ?m)"
    by simp
  have a: "start_movement 0 0.5 (2 ^ 1024) init = Inr ?s"
    using start_movement_near [of "0.5" init 0 "2 ^ 1024"] by (simp add: init_def)
  have b: "update_position 5 ?s = Inl OverflowError"
    by (rule update_position_overflow [where m = ?m]) (use big before in simp_all)
  from a b show ?thesis by (rule conjI)
qed

subsection \<open>The invariant of a run\<close>

text \<open>
  Claim C4. From the initial state, after any finite sequence of \<open>start_movement\<close> and
  tick operations with non-decreasing clock readings, the position lies in [0, 1] and
  equals the target position whenever no movement is present. An operation that raises
  (a duration beyond the range of a float) leaves the state as it was.
\<close>

theorem position_invariant:
  "sorted (map fst ops) \<Longrightarrow>
   0 \<le> current_position (run init ops) \<and> current_position (run init ops) \<le> 1 \<and>
   (current_movement (run init ops) = None \<longrightarrow>
      current_position (run init ops) = HandySimulator.target_position (run init ops))"
proof -
  assume sorted: "sorted (map fst ops)"
  define t where "t = (case ops of [] \<Rightarrow> 0 | c # _ \<Rightarrow> fst c)"
  have "\<forall>c\<in>set ops. t \<le> fst c"
    using sorted by (cases ops) (auto simp add: t_def)
  with movement_inv_init [of t] sorted
  obtain t' where "movement_inv t' (run init ops)"
    using run_inv by blast
  then show ?thesis
    by (auto simp add: movement_inv_def)
qed

text \<open>
  The theorem on a run in which the first call raises, the second installs a movement of
  duration \<open>2 ^ 1024\<close> whose tick raises, and a third movement is replaced midway.
\<close>

theorem position_invariant_witness:
  "sorted (map fst
     [(0 :: real, StartMovement 0.9 (2 ^ 1024)), (10, StartMovement 0.5 (2 ^ 1024)), (20, Tick),
      (30, StartMovement 0.9 100), (50, Tick), (60, StartMovement 1.5 (- 10)), (65, Tick),
      (200, Tick)]) \<and>
   0 \<le> current_position (run init
     [(0, StartMovement 0.9 (2 ^ 1024)), (10, StartMovement 0.5 (2 ^ 1024)), (20, Tick),
      (30, StartMovement 0.9 100), (50, Tick), (60, StartMovement 1.5 (- 10)), (65, Tick),
      (200, Tick)]) \<and>
   current_position (run init
     [(0, StartMovement 0.9 (2 ^ 1024)), (10, StartMovement 0.5 (2 ^ 1024)), (20, Tick),
      (30, StartMovement 0.9 100), (50, Tick), (60, StartMovement 1.5 (- 10)), (65, Tick),
      (200, Tick)]) \<le> 1"
proof -
  have h: "sorted (map fst
     [(0 :: real, StartMovement 0.9 (2 ^ 1024)), (10, StartMovement 0.5 (2 ^ 1024)), (20, Tick),
      (30, StartMovement 0.9 100), (50, Tick), (60, StartMovement 1.5 (- 10)), (65, Tick),
      (200, Tick)])"
    by simp
  from position_invariant [OF h] h show ?thesis by blast
qed

subsection \<open>Starting a movement\<close>

text \<open>
  Claim C5 (as amended). In every state, with or without a movement in progress, and for
  every duration that converts to a float (below \<open>2 ^ 1024 - 2 ^ 970\<close>),
  \<open>start_movement\<close> installs a new movement whose start position is the current position
  of the simulator (not the target or the start of a replaced movement), whose target is
  the clamped argument and which starts at the current clock reading. The position itself
  is unchanged by the call, and a tick at the same instant leaves it where it was: no
  jump. For a larger duration and a target more than 0.001 away from the current
  position the call raises \<open>OverflowError\<close> and replaces nothing.
\<close>

theorem start_movement_replaces:
  "(dur < 2 ^ 1024 - 2 ^ 970 \<longrightarrow>
     (\<exists>s' m s''.
        start_movement now pos dur s = Inr s' \<and>
        current_movement s' = Some m \<and>
        start_position m = current_position s \<and>
        Movement.target_position m = max 0 (min 1 pos) \<and>
        Movement.duration_ms m = max 10 dur \<and>
        start_time_ms m = now \<and> is_active m \<and>
        current_position s' = current_position s \<and>
        update_position now s' = Inr s'' \<and>
        current_position s'' = current_position s)) \<and>
   (2 ^ 1024 - 2 ^ 970 \<le> dur \<and> \<bar>max 0 (min 1 pos) - current_position s\<bar> > 0.001 \<longrightarrow>
      start_movement now pos dur s = Inl OverflowError)"
proof (intro conjI impI)
  assume "dur < 2 ^ 1024 - 2 ^ 970"
  then have fr: "float_range (max 10 dur)" unfolding float_range_max .
  let ?m = "\<lparr>start_position = current_position s,
             Movement.target_position = max 0 (min 1 pos),
             Movement.duration_ms = max 10 dur,
             start_time_ms = now, is_active = True\<rparr>"
  obtain s' where s': "start_movement now pos dur s = Inr s'"
    and m: "current_movement s' = Some ?m"
    and c: "current_position s' = current_position s"
    by (simp add: start_movement_ok [OF fr])
  have before: "\<not> now - start_time_ms ?m \<ge> real_of_int (Movement.duration_ms ?m)" by simp
  have "update_position now s' =
     Inr (s'\<lparr>current_position := start_position ?m +
            (Movement.target_position ?m - start_position ?m) *
            ((now - start_time_ms ?m) / real_of_int (Movement.duration_ms ?m))\<rparr>)"
    by (rule update_position_moving [OF m _ _ before]) (use fr in simp_all)
  then obtain s'' where "update_position now s' = Inr s''"
    and "current_position s'' = current_position s"
    by simp
  with s' m c show "\<exists>s' m s''.
        start_movement now pos dur s = Inr s' \<and>
        current_movement s' = Some m \<and>
        start_position m = current_position s \<and>
        Movement.target_position m = max 0 (min 1 pos) \<and>
        Movement.duration_ms m = max 10 dur \<and>
        start_time_ms m = now \<and> is_active m \<and>
        current_position s' = current_position s \<and>
        update_position now s' = Inr s'' \<and>
        current_position s'' = current_position s"
    by simp
next
  assume h: "2 ^ 1024 - 2 ^ 970 \<le> dur \<and> \<bar>max 0 (min 1 pos) - current_position s\<bar> > 0.001"
  then have big: "\<not> dur < 2 ^ 1024 - 2 ^ 970"
    and far: "\<bar>max 0 (min 1 pos) - current_position s\<bar> > 0.001"
    by simp_all
  from big have "\<not> float_range (max 10 dur)" unfolding float_range_max .
  then show "start_movement now pos dur s = Inl OverflowError"
    using far by (rule start_movement_overflow)
qed

text \<open>
  The theorem on a movement from 0.5 to 0.9 that is replaced at position 0.7: the new
  movement starts at 0.7; and at the smallest duration that does not convert.
\<close>

theorem start_movement_replaces_witness:
  "(\<exists>s' s''.
     start_movement 50 0.2 300
       \<lparr>current_position = 0.7, target_position = 0.9,
        current_movement = Some \<lparr>start_position = 0.5, Movement.target_position = 0.9,
          Movement.duration_ms = 100, start_time_ms = 0, is_active = True\<rparr>,
        speed_mms = 500\<rparr> = Inr s' \<and>
     current_movement s' = Some \<lparr>start_position = 0.7, Movement.target_position = 0.2,
          Movement.duration_ms = 300, start_time_ms = 50, is_active = True\<rparr> \<and>
     current_position s' = 0.7 \<and>
     update_position 50 s' = Inr s'' \<and> current_position s'' = 0.7) \<and>
   start_movement 0 0.9 (2 ^ 1024 - 2 ^ 970) init = Inl OverflowError"
proof (rule conjI)
  let ?s = "\<lparr>current_position = 0.7, target_position = 0.9,
        current_movement = Some \<lparr>start_position = 0.5, Movement.target_position = 0.9,
          Movement.duration_ms = 100, start_time_ms = 0, is_active = True\<rparr>,
        speed_mms = 500 :: real\<rparr>"
  have small: "(300 :: int) < 2 ^ 1024 - 2 ^ 970" by simp
  from start_movement_replaces [of 300 50 "0.2" ?s, THEN conjunct1, THEN mp, OF small]
  obtain s' m s'' where "start_movement 50 0.2 300 ?s = Inr s'"
    and "current_movement s' = Some m"
    and "start_position m = 0.7" and "Movement.target_position m = 0.2"
    and "Movement.duration_ms m = 300" and "start_time_ms m = 50" and "is_active m"
    and "current_position s' = 0.7"
    and "update_position 50 s' = Inr s''" and "current_position s'' = 0.7"
    by auto
  moreover from this have "m = \<lparr>start_position = 0.7, Movement.target_position = 0.2,
          Movement.duration_ms = 300, start_time_ms = 50, is_active = True\<rparr>"
    by simp
  ultimately show "\<exists>s' s''.
     start_movement 50 0.2 300 ?s = Inr s' \<and>
     current_movement s' = Some \<lparr>start_position = 0.7, Movement.target_position = 0.2,
          Movement.duration_ms = 300, start_time_ms = 50, is_active = True\<rparr> \<and>
     current_position s' = 0.7 \<and>
     update_position 50 s' = Inr s'' \<and> current_position s'' = 0.7"
    by blast
next
  have far: "(2 :: int) ^ 1024 - 2 ^ 970 \<le> 2 ^ 1024 - 2 ^ 970 \<and>
      \<bar>max 0 (min 1 0.9) - current_position init\<bar> > 0.001"
    by (simp add: init_def)
  from start_movement_replaces [of "2 ^ 1024 - 2 ^ 970" 0 "0.9" init,
      THEN conjunct2, THEN mp, OF far]
  show "start_movement 0 0.9 (2 ^ 1024 - 2 ^ 970) init = Inl OverflowError" .
qed

text \<open>
  The claim as first stated fails: with duration \<open>2 ^ 1024\<close> the call raises and the
  movement in progress is not replaced.
\<close>

theorem replace_overflow_counterexample:
  "start_movement 50 0.2 (2 ^ 1024)
     \<lparr>current_position = 0.7, target_position = 0.9,
      current_movement = Some \<lparr>start_position = 0.5, Movement.target_position = 0.9,
        Movement.duration_ms = 100, start_time_ms = 0, is_active = True\<rparr>,
      speed_mms = 500\<rparr> = Inl OverflowError"
proof -
  have "\<not> float_range (max 10 (2 ^ 1024))" by (simp add: float_range_def)
  then show ?thesis
    by (rule start_movement_overflow) simp
qed

text \<open>
  Claim C6 (as amended). For every position and every duration below
  \<open>2 ^ 1024 - 2 ^ 970\<close>, \<open>start_movement\<close> returns without an exception, with the target
  clamped into [0, 1] and the duration raised to at least 10;
  \<open>start_movement(1.5, -10)\<close> gives target 1.0 and duration 10. For a larger duration and a
  clamped target more than 0.001 away from the current position it raises
  \<open>OverflowError\<close>.
\<close>

theorem start_movement_clamps:
  "(dur < 2 ^ 1024 - 2 ^ 970 \<longrightarrow>
     (\<exists>s' m. start_movement now pos dur s = Inr s' \<and>
        HandySimulator.target_position s' = max 0 (min 1 pos) \<and>
        0 \<le> HandySimulator.target_position s' \<and> HandySimulator.target_position s' \<le> 1 \<and>
        current_movement s' = Some m \<and>
        Movement.target_position m = HandySimulator.target_position s' \<and>
        Movement.duration_ms m = max 10 dur \<and> 10 \<le> Movement.duration_ms m)) \<and>
   (\<exists>s' m. start_movement now 1.5 (- 10) s = Inr s' \<and>
      HandySimulator.target_position s' = 1 \<and>
      current_movement s' = Some m \<and>
      Movement.target_position m = 1 \<and> Movement.duration_ms m = 10) \<and>
   (2 ^ 1024 - 2 ^ 970 \<le> dur \<and> \<bar>max 0 (min 1 pos) - current_position s\<bar> > 0.001 \<longrightarrow>
      start_movement now pos dur s = Inl OverflowError)"
proof (intro conjI impI)
  have clamp: "0 \<le> max 0 (min 1 pos)" "max 0 (min 1 pos) \<le> 1" for pos :: real
    by simp_all
  have floor: "10 \<le> max 10 dur" for dur :: int
    by simp
  {
    assume "dur < 2 ^ 1024 - 2 ^ 970"
    then have fr: "float_range (max 10 dur)" unfolding float_range_max .
    show "\<exists>s' m. start_movement now pos dur s = Inr s' \<and>
        HandySimulator.target_position s' = max 0 (min 1 pos) \<and>
        0 \<le> HandySimulator.target_position s' \<and> HandySimulator.target_position s' \<le> 1 \<and>
        current_movement s' = Some m \<and>
        Movement.target_position m = HandySimulator.target_position s' \<and>
        Movement.duration_ms m = max 10 dur \<and> 10 \<le> Movement.duration_ms m"
      using clamp [of pos] floor [of dur] by (simp add: start_movement_ok [OF fr])
  }
  have "(- 10 :: int) < 2 ^ 1024 - 2 ^ 970" by simp
  then have fr: "float_range (max 10 (- 10))" unfolding float_range_max .
  have "max 0 (min 1 (1.5 :: real)) = 1" and "max 10 (- 10 :: int) = 10"
    by simp_all
  then show "\<exists>s' m. start_movement now 1.5 (- 10) s = Inr s' \<and>
      HandySimulator.target_position s' = 1 \<and>
      current_movement s' = Some m \<and>
      Movement.target_position m = 1 \<and> Movement.duration_ms m = 10"
    by (simp add: start_movement_ok [OF fr])
  {
    assume h: "2 ^ 1024 - 2 ^ 970 \<le> dur \<and> \<bar>max 0 (min 1 pos) - current_position s\<bar> > 0.001"
    then have big: "\<not> dur < 2 ^ 1024 - 2 ^ 970"
      and far: "\<bar>max 0 (min 1 pos) - current_position s\<bar> > 0.001"
      by simp_all
    from big have "\<not> float_range (max 10 dur)" unfolding float_range_max .
    then show "start_movement now pos dur s = Inl OverflowError"
      using far by (rule start_movement_overflow)
  }
qed

text \<open>
  The theorem at a position below 0 with a duration below 10, and at the smallest
  duration that does not convert.
\<close>

theorem start_movement_clamps_witness:
  "(\<exists>s' m. start_movement 0 (- 0.25) 5 init = Inr s' \<and>
      HandySimulator.target_position s' = 0 \<and>
      current_movement s' = Some m \<and>
      Movement.target_position m = 0 \<and> Movement.duration_ms m = 10) \<and>
   start_movement 0 (- 0.25) (2 ^ 1024 - 2 ^ 970) init = Inl OverflowError"
proof (rule conjI)
  have small: "(5 :: int) < 2 ^ 1024 - 2 ^ 970" by simp
  from start_movement_clamps [of 5 0 "- 0.25" init, THEN conjunct1, THEN mp, OF small]
  show "\<exists>s' m. start_movement 0 (- 0.25) 5 init = Inr s' \<and>
      HandySimulator.target_position s' = 0 \<and>
      current_movement s' = Some m \<and>
      Movement.target_position m = 0 \<and> Movement.duration_ms m = 10"
    by auto
next
  have far: "(2 :: int) ^ 1024 - 2 ^ 970 \<le> 2 ^ 1024 - 2 ^ 970 \<and>
      \<bar>max 0 (min 1 (- 0.25)) - current_position init\<bar> > 0.001"
    by (simp add: init_def)
  from start_movement_clamps [of "2 ^ 1024 - 2 ^ 970" 0 "- 0.25" init,
      THEN conjunct2, THEN conjunct2, THEN mp, OF far]
  show "start_movement 0 (- 0.25) (2 ^ 1024 - 2 ^ 970) init = Inl OverflowError" .
qed

text \<open>
  The claim as first stated fails: \<open>start_movement(0.9, 2 ** 1024)\<close> on the initial state
  raises \<open>OverflowError\<close>.
\<close>

theorem clamp_overflow_counterexample:
  "start_movement 0 0.9 (2 ^ 1024) init = Inl OverflowError"
proof -
  have "\<not> float_range (max 10 (2 ^ 1024))" by (simp add: float_range_def)
  then show ?thesis
    by (rule start_movement_overflow) (simp add: init_def)
qed

end
